theory Spec2Isabelle
  imports Complex_Main "HOL-Library.Multiset"
begin

section \<open>JavaScript values\<close>

text \<open>
  The values that product objects carry. A number is a rational; \<open>NaN\<close> and the
  infinities are outside the model. A product object is a finite map from property names
  to values; a key that is not in the domain is an absent property, and reading it gives
  \<open>undefined\<close>.
\<close>

datatype jsval =
    JUndefined
  | JNull
  | JBool bool
  | JNum rat
  | JStr string
  | JArr "jsval list"

type_synonym obj = "string \<rightharpoonup> jsval"

fun truthy :: "jsval \<Rightarrow> bool" where
  "truthy JUndefined = False"
| "truthy JNull = False"
| "truthy (JBool b) = b"
| "truthy (JNum r) = (r \<noteq> 0)"
| "truthy (JStr s) = (s \<noteq> [])"
| "truthy (JArr vs) = True"

text \<open>\<^verbatim>\<open>a || b\<close> on values, and on an optional string with a string default.\<close>

definition js_or :: "jsval \<Rightarrow> jsval \<Rightarrow> jsval" where
  "js_or a b = (if truthy a then a else b)"

definition str_or :: "string option \<Rightarrow> string \<Rightarrow> string" where
  "str_or s d = (case s of None \<Rightarrow> d | Some t \<Rightarrow> if t = [] then d else t)"

definition getp :: "obj \<Rightarrow> string \<Rightarrow> jsval" where
  "getp ob k = (case ob k of None \<Rightarrow> JUndefined | Some v \<Rightarrow> v)"

definition of_num :: "rat option \<Rightarrow> jsval" where
  "of_num v = (case v of None \<Rightarrow> JUndefined | Some r \<Rightarrow> JNum r)"

definition of_str :: "string option \<Rightarrow> jsval" where
  "of_str v = (case v of None \<Rightarrow> JUndefined | Some s \<Rightarrow> JStr s)"

text \<open>
  \<^verbatim>\<open>Array.prototype.slice(start, end)\<close> on an array of length \<open>len\<close>: a negative
  index counts from the end, both indices are clamped to \<open>0..len\<close>, and the result is
  empty when the clamped end is not beyond the clamped start.
\<close>

definition js_slice :: "int \<Rightarrow> int \<Rightarrow> 'a list \<Rightarrow> 'a list" where
  "js_slice start stop xs =
     (let len = int (length xs);
          k = (if start < 0 then max (len + start) 0 else min start len);
          final = (if stop < 0 then max (len + stop) 0 else min stop len)
      in take (nat (final - k)) (drop (nat k) xs))"

text \<open>
  Strings are lists of 8-bit characters, read as the code units 0 to 255. \<open>trim\<close> and
  the regular expression class \<^verbatim>\<open>\s\<close> strip tab, line feed, vertical tab, form feed,
  carriage return, space and the no-break space (160); the white space beyond code unit
  255 cannot occur. \<open>toLowerCase\<close> maps \<open>A..Z\<close> and the upper-case letters 192 to 222
  (without the multiplication sign 215) to the letter 32 places later. \<open>is_upper\<close>,
  \<open>is_lower\<close> and \<open>toUpperChar\<close> are about the letters \<open>A..Z\<close> and \<open>a..z\<close>, the
  ones a case-insensitive pattern over \<open>A-Z\<close> matches.
\<close>

definition is_upper :: "char \<Rightarrow> bool" where
  "is_upper c = (65 \<le> (of_char c :: nat) \<and> (of_char c :: nat) \<le> 90)"

definition is_lower :: "char \<Rightarrow> bool" where
  "is_lower c = (97 \<le> (of_char c :: nat) \<and> (of_char c :: nat) \<le> 122)"

definition is_digit :: "char \<Rightarrow> bool" where
  "is_digit c = (48 \<le> (of_char c :: nat) \<and> (of_char c :: nat) \<le> 57)"

definition is_space :: "char \<Rightarrow> bool" where
  "is_space c = ((of_char c :: nat) \<in> {9, 10, 11, 12, 13, 32, 160})"

definition is_upper_latin :: "char \<Rightarrow> bool" where
  "is_upper_latin c =
     (192 \<le> (of_char c :: nat) \<and> (of_char c :: nat) \<le> 222 \<and> (of_char c :: nat) \<noteq> 215)"

definition toLowerChar :: "char \<Rightarrow> char" where
  "toLowerChar c =
     (if is_upper c \<or> is_upper_latin c then char_of ((of_char c :: nat) + 32) else c)"

definition toUpperChar :: "char \<Rightarrow> char" where
  "toUpperChar c = (if is_lower c then char_of ((of_char c :: nat) - 32) else c)"

definition toLowerCase :: "string \<Rightarrow> string" where
  "toLowerCase s = map toLowerChar s"

definition toUpperCase :: "string \<Rightarrow> string" where
  "toUpperCase s = map toUpperChar s"

definition trim :: "string \<Rightarrow> string" where
  "trim s = rev (dropWhile is_space (rev (dropWhile is_space s)))"

text \<open>
  \<^verbatim>\<open>xs.join(sep)\<close> on a list of strings; the same function, on lists of events,
  describes a sequence of traces with a separator between consecutive ones.
\<close>

fun join :: "'a list \<Rightarrow> 'a list list \<Rightarrow> 'a list" where
  "join sep [] = []"
| "join sep [x] = x"
| "join sep (x # y # ys) = x @ sep @ join sep (y # ys)"

section \<open>Double-precision arithmetic\<close>

text \<open>
  A JavaScript number is an IEEE 754 double. The value of each arithmetic operation is
  the exact result rounded to the nearest double, a tie going to the even significand.
  \<open>to_double\<close> is that rounding for 53-bit significands: \<open>binade x\<close> is the exponent
  \<open>e\<close> with \<open>2^e \<le> x < 2^(e+1)\<close> for a positive \<open>x\<close>, found from the bit lengths of
  numerator and denominator, and the unit in the last place is \<open>2^(e - 52)\<close>. The
  exponent range is not bounded: overflow to infinity and the subnormal numbers are
  outside the model. The numbers of a response are doubles already.
\<close>

function log2floor :: "int \<Rightarrow> int" where
  "log2floor n = (if n < 2 then 0 else 1 + log2floor (n div 2))"
  by pat_completeness auto
termination
  by (relation "measure nat") auto

declare log2floor.simps [simp del]

definition binade :: "rat \<Rightarrow> int" where
  "binade x =
     (let pq = quotient_of x;
          e0 = log2floor (fst pq) - log2floor (snd pq)
      in if 2 powi e0 \<le> x then e0 else e0 - 1)"

definition round_half_even :: "rat \<Rightarrow> int" where
  "round_half_even y =
     (let n = \<lfloor>y\<rfloor>; r = y - of_int n
      in if r < 1 / 2 then n else if 1 / 2 < r then n + 1 else if even n then n else n + 1)"

definition to_double :: "rat \<Rightarrow> rat" where
  "to_double x =
     (if x = 0 then 0
      else (let u = 2 powi (binade \<bar>x\<bar> - 52)
            in of_int (round_half_even (x / u)) * u))"

text \<open>
  \<open>a - b\<close>, \<open>a / b\<close> and \<open>a * b\<close> on doubles. \<open>Math.round\<close> gives the nearest
  integer, a tie going up: it is \<^const>\<open>round\<close>, exact on a double.
\<close>

definition double_sub :: "rat \<Rightarrow> rat \<Rightarrow> rat" where
  "double_sub a b = to_double (a - b)"

definition double_div :: "rat \<Rightarrow> rat \<Rightarrow> rat" where
  "double_div a b = to_double (a / b)"

definition double_mul :: "rat \<Rightarrow> rat \<Rightarrow> rat" where
  "double_mul a b = to_double (a * b)"

section \<open>Enrichment client (pa-api-client.js)\<close>

subsection \<open>Configuration\<close>

text \<open>
  The fields of the configuration that the client's control flow reads. The caller's
  object overrides \<open>DEFAULT_CONFIG\<close> field by field
  (\<^verbatim>\<open>{ ...DEFAULT_CONFIG, ...config }\<close>); \<open>associateTag\<close> has no default, and an
  absent one reads as \<open>undefined\<close> inside the link template.
\<close>

record config =
  batchSize :: int
  retryAttempts :: int
  retryDelayMs :: int
  requestDelayMs :: int
  associateTag :: string

record user_config =
  u_batchSize :: "int option"
  u_retryAttempts :: "int option"
  u_retryDelayMs :: "int option"
  u_requestDelayMs :: "int option"
  u_associateTag :: "string option"

definition no_overrides :: user_config where
  "no_overrides = \<lparr>u_batchSize = None, u_retryAttempts = None, u_retryDelayMs = None,
     u_requestDelayMs = None, u_associateTag = None\<rparr>"

definition DEFAULT_CONFIG :: config where
  "DEFAULT_CONFIG = \<lparr>batchSize = 10, retryAttempts = 3, retryDelayMs = 1000,
     requestDelayMs = 1100, associateTag = ''undefined''\<rparr>"

definition fullConfig :: "user_config \<Rightarrow> config" where
  "fullConfig c =
     \<lparr>batchSize = (case u_batchSize c of None \<Rightarrow> batchSize DEFAULT_CONFIG | Some v \<Rightarrow> v),
      retryAttempts = (case u_retryAttempts c of None \<Rightarrow> retryAttempts DEFAULT_CONFIG | Some v \<Rightarrow> v),
      retryDelayMs = (case u_retryDelayMs c of None \<Rightarrow> retryDelayMs DEFAULT_CONFIG | Some v \<Rightarrow> v),
      requestDelayMs = (case u_requestDelayMs c of None \<Rightarrow> requestDelayMs DEFAULT_CONFIG | Some v \<Rightarrow> v),
      associateTag = (case u_associateTag c of None \<Rightarrow> associateTag DEFAULT_CONFIG | Some v \<Rightarrow> v)\<rparr>"

subsection \<open>The remote response\<close>

text \<open>
  A response item of the product API, with the fields \<open>extractProductData\<close> reads. An
  optional chain such as \<^verbatim>\<open>item.ItemInfo?.Title?.DisplayValue\<close> is one optional field:
  it is \<open>None\<close> when any link of the chain is missing.
\<close>

record money =
  Amount :: "rat option"
  Currency :: "string option"

record listing =
  Price :: "money option"
  SavingBasis :: "money option"
  Availability_Type :: "string option"

record item =
  ASIN :: string
  ItemInfo_Title_DisplayValue :: "string option"
  Offers_Listings :: "listing list option"
  Images_Primary_Medium_URL :: "string option"
  DetailPageURL :: "string option"

record item_error =
  err_ASIN :: jsval
  err_Code :: "string option"
  err_Message :: "string option"
  err_message :: "string option"

record response_data =
  ItemsResult_Items :: "item list option"
  Errors :: "item_error list option"

text \<open>
  What \<open>getItemsBatch\<close> returns: \<^verbatim>\<open>{ success: true, data }\<close>, or
  \<^verbatim>\<open>{ success: false, error, status }\<close> with the error message it extracted (a string)
  and the HTTP status when there was one.
\<close>

datatype response = Success response_data | Failure string "int option"

fun is_success :: "response \<Rightarrow> bool" where
  "is_success (Success d) = True"
| "is_success (Failure msg status) = False"

subsection \<open>extractProductData\<close>

definition first_listing :: "item \<Rightarrow> listing option" where
  "first_listing it =
     (case Offers_Listings it of None \<Rightarrow> None | Some [] \<Rightarrow> None | Some (l # ls) \<Rightarrow> Some l)"

text \<open>
  The four local variables \<open>originalPrice\<close>, \<open>discountAmount\<close>,
  \<open>discountPercentage\<close>, \<open>isOnSale\<close>: they start as \<open>null, null, null, false\<close> and
  are assigned under the guard \<^verbatim>\<open>savingBasis && savingBasis.Amount && price\<close>. The
  difference, the quotient and the product are double operations:
  \<^verbatim>\<open>Math.round((discountAmount / originalPrice) * 100)\<close>.
\<close>

definition sale_information :: "money option \<Rightarrow> jsval \<Rightarrow> jsval \<times> jsval \<times> jsval \<times> bool" where
  "sale_information savingBasis price =
     (case savingBasis of
        None \<Rightarrow> (JNull, JNull, JNull, False)
      | Some sb \<Rightarrow>
          (case Amount sb of
             None \<Rightarrow> (JNull, JNull, JNull, False)
           | Some originalPrice \<Rightarrow>
               (case price of
                  JNum p \<Rightarrow>
                    if originalPrice \<noteq> 0 \<and> p \<noteq> 0
                    then (let discountAmount = double_sub originalPrice p;
                              discountPercentage =
                                round (double_mul (double_div discountAmount originalPrice) 100)
                          in (JNum originalPrice, JNum discountAmount,
                              JNum (of_int discountPercentage), discountAmount > 0))
                    else (JNull, JNull, JNull, False)
                | _ \<Rightarrow> (JNull, JNull, JNull, False))))"

definition extractProductData :: "item \<Rightarrow> string \<Rightarrow> obj" where
  "extractProductData it tag =
     (let asin = ASIN it;
          title = str_or (ItemInfo_Title_DisplayValue it) ''Unknown Product'';
          listing0 = first_listing it;
          priceObj = (case listing0 of None \<Rightarrow> None | Some l \<Rightarrow> Price l);
          price = (case priceObj of None \<Rightarrow> JNull | Some m \<Rightarrow> of_num (Amount m));
          currency = (case priceObj of None \<Rightarrow> JStr ''USD'' | Some m \<Rightarrow> of_str (Currency m));
          savingBasis = (case listing0 of None \<Rightarrow> None | Some l \<Rightarrow> SavingBasis l);
          (originalPrice, discountAmount, discountPercentage, isOnSale) =
             sale_information savingBasis price;
          imageUrl = (case Images_Primary_Medium_URL it of
                        None \<Rightarrow> JNull
                      | Some u \<Rightarrow> if u = [] then JNull else JStr u);
          availability =
             str_or (case listing0 of None \<Rightarrow> None | Some l \<Rightarrow> Availability_Type l) ''Unknown'';
          link = str_or (DetailPageURL it) (''https://www.amazon.com/dp/'' @ asin @ ''?tag='' @ tag)
      in [''asin'' \<mapsto> JStr asin,
          ''title'' \<mapsto> JStr title,
          ''price'' \<mapsto> price,
          ''currency'' \<mapsto> currency,
          ''image_url'' \<mapsto> imageUrl,
          ''link'' \<mapsto> JStr link,
          ''availability'' \<mapsto> JStr availability]
         ++ (if isOnSale
             then [''is_on_sale'' \<mapsto> JBool True,
                   ''original_price'' \<mapsto> originalPrice,
                   ''discount_amount'' \<mapsto> discountAmount,
                   ''discount_percentage'' \<mapsto> discountPercentage]
             else Map.empty))"

text \<open>
  The amounts \<open>extractProductData\<close> reads from the first listing:
  \<^verbatim>\<open>Listings[0].SavingBasis.Amount\<close> and \<^verbatim>\<open>Listings[0].Price.Amount\<close>.
\<close>

definition savingBasis_amount :: "item \<Rightarrow> rat option" where
  "savingBasis_amount it =
     (case first_listing it of
        None \<Rightarrow> None
      | Some l \<Rightarrow> (case SavingBasis l of None \<Rightarrow> None | Some sb \<Rightarrow> Amount sb))"

definition price_amount :: "item \<Rightarrow> rat option" where
  "price_amount it =
     (case first_listing it of
        None \<Rightarrow> None
      | Some l \<Rightarrow> (case Price l of None \<Rightarrow> None | Some m \<Rightarrow> Amount m))"

subsection \<open>The network and the clock\<close>

text \<open>
  The client's effects are its requests and its timed waits. A world is the list of the
  events so far, oldest first. The remote service is any function of the history and of
  the requested identifiers, so every mix of success, per-item rejection and transport
  failure is some remote. \<open>delay(ms)\<close> is called at two places, the back-off inside
  \<open>enrichBatchWithRetry\<close> and the pause between batches in \<open>enrichAsins\<close>; the event
  records which.
\<close>

datatype site = Backoff | InterBatch

datatype event = Request "jsval list" | Delay site int

type_synonym world = "event list"

type_synonym remote = "event list \<Rightarrow> jsval list \<Rightarrow> response"

definition delay :: "site \<Rightarrow> int \<Rightarrow> world \<Rightarrow> world" where
  "delay s ms w = w @ [Delay s ms]"

definition getItemsBatch :: "remote \<Rightarrow> jsval list \<Rightarrow> world \<Rightarrow> response \<times> world" where
  "getItemsBatch rem asins w = (rem w asins, w @ [Request asins])"

subsection \<open>enrichBatchWithRetry\<close>

text \<open>
  \<open>attempt\<close> starts at 1 (the default argument; the function is not exported), so
  \<open>Math.pow(2, attempt - 1)\<close> is a power of two with a natural exponent.
\<close>

function enrichBatchWithRetry ::
  "remote \<Rightarrow> jsval list \<Rightarrow> config \<Rightarrow> int \<Rightarrow> world \<Rightarrow> response \<times> world" where
  "enrichBatchWithRetry rem asins cfg attempt w =
     (let rw = getItemsBatch rem asins w in
      if is_success (fst rw) then rw
      else if attempt < retryAttempts cfg
      then enrichBatchWithRetry rem asins cfg (attempt + 1)
             (delay Backoff (retryDelayMs cfg * 2 ^ nat (attempt - 1)) (snd rw))
      else rw)"
  by pat_completeness auto
termination
  by (relation "measure (\<lambda>(rem, asins, cfg, attempt, w). nat (retryAttempts cfg - attempt))") auto

declare enrichBatchWithRetry.simps [simp del]

subsection \<open>enrichAsins\<close>

text \<open>
  The argument is an array of identifier strings or of product objects.
  \<open>asinStrings\<close> takes a string as it is and the \<open>asin\<close> property of an object.
\<close>

datatype asin_item = AsinString string | AsinObject obj

fun asin_of :: "asin_item \<Rightarrow> jsval" where
  "asin_of (AsinString s) = JStr s"
| "asin_of (AsinObject ob) = getp ob ''asin''"

text \<open>
  \<open>asinMap\<close> is filled only when the first element is an object; a later entry for the
  same key replaces the earlier one. Lookups use the identifier of a response item, a
  string, so the entry a string element of a mixed array would leave under the key
  \<open>undefined\<close> is never read and is left out.
\<close>

definition build_asinMap :: "asin_item list \<Rightarrow> (jsval \<rightharpoonup> obj)" where
  "build_asinMap asins =
     (case asins of
        AsinObject first # rest \<Rightarrow>
          fold (\<lambda>it m. case it of AsinObject ob \<Rightarrow> m(getp ob ''asin'' \<mapsto> ob) | AsinString s \<Rightarrow> m)
               asins Map.empty
      | _ \<Rightarrow> Map.empty)"

text \<open>
  The batching loop:
  \<^verbatim>\<open>for (let i = 0; i < asinStrings.length; i += batchSize)
    batches.push(asinStrings.slice(i, i + batchSize));\<close>
  It does not end when \<open>batchSize\<close> is zero or negative and the list is not empty;
  not returning is the value \<open>None\<close>.
\<close>

partial_function (option) splitBatches ::
  "int \<Rightarrow> int \<Rightarrow> 'a list \<Rightarrow> 'a list list \<Rightarrow> 'a list list option" where
  "splitBatches bsize i asinStrings batches =
     (if i < int (length asinStrings)
      then splitBatches bsize (i + bsize) asinStrings
             (batches @ [js_slice i (i + bsize) asinStrings])
      else Some batches)"

record error_detail =
  ed_asin :: jsval
  ed_code :: string
  ed_message :: string

record accum =
  enriched :: "obj list"
  failed :: "jsval list"
  errors :: "error_detail list"

definition empty_accum :: accum where
  "empty_accum = \<lparr>enriched = [], failed = [], errors = []\<rparr>"

definition merge_original :: "(jsval \<rightharpoonup> obj) \<Rightarrow> obj \<Rightarrow> obj" where
  "merge_original asinMap productData =
     (case asinMap (getp productData ''asin'') of
        Some originalData \<Rightarrow> originalData ++ productData
      | None \<Rightarrow> productData)"

definition item_error_detail :: "item_error \<Rightarrow> error_detail" where
  "item_error_detail e =
     \<lparr>ed_asin = err_ASIN e,
      ed_code = str_or (err_Code e) ''UNKNOWN_ERROR'',
      ed_message = str_or (err_Message e) (str_or (err_message e) ''Item not accessible'')\<rparr>"

text \<open>
  The body of the loop after the response has arrived. On success the items of the
  response are extracted and merged, and the item errors of the response recorded; on
  failure every identifier of the batch is recorded with the code \<open>BATCH_FAILED\<close> and
  the message of the response.
\<close>

definition record_response ::
  "config \<Rightarrow> (jsval \<rightharpoonup> obj) \<Rightarrow> jsval list \<Rightarrow> response \<Rightarrow> accum \<Rightarrow> accum" where
  "record_response cfg asinMap batch r acc =
     (case r of
        Success d \<Rightarrow>
          (let items = (case ItemsResult_Items d of None \<Rightarrow> [] | Some xs \<Rightarrow> xs);
               itemErrors = (case Errors d of None \<Rightarrow> [] | Some es \<Rightarrow> es)
           in acc\<lparr>enriched := enriched acc @
                     map (\<lambda>it. merge_original asinMap (extractProductData it (associateTag cfg))) items,
                   failed := failed acc @ map err_ASIN itemErrors,
                   errors := errors acc @ map item_error_detail itemErrors\<rparr>)
      | Failure errorMessage status \<Rightarrow>
          acc\<lparr>failed := failed acc @ batch,
              errors := errors acc @
                map (\<lambda>a. \<lparr>ed_asin = a, ed_code = ''BATCH_FAILED'', ed_message = errorMessage\<rparr>) batch\<rparr>)"

fun processBatches ::
  "remote \<Rightarrow> config \<Rightarrow> (jsval \<rightharpoonup> obj) \<Rightarrow> nat \<Rightarrow> jsval list list \<Rightarrow> nat \<Rightarrow> accum \<Rightarrow> world
     \<Rightarrow> accum \<times> world" where
  "processBatches rem cfg asinMap nbatches [] batchNumber acc w = (acc, w)"
| "processBatches rem cfg asinMap nbatches (batch # rest) batchNumber acc w =
     (let rw = enrichBatchWithRetry rem batch cfg 1 w;
          acc1 = record_response cfg asinMap batch (fst rw) acc;
          w2 = (if Suc batchNumber < nbatches
                then delay InterBatch (requestDelayMs cfg) (snd rw) else snd rw)
      in processBatches rem cfg asinMap nbatches rest (Suc batchNumber) acc1 w2)"

record enrich_metadata =
  totalAsins :: nat
  enrichedCount :: nat
  failedCount :: nat
  successRate :: rat
  batchCount :: nat

record enrich_result =
  res_products :: "obj list"
  res_metadata :: enrich_metadata
  res_failed :: "jsval list"
  res_errors :: "error_detail list option"

definition enrichAsins ::
  "remote \<Rightarrow> asin_item list \<Rightarrow> user_config \<Rightarrow> world \<Rightarrow> (enrich_result \<times> world) option" where
  "enrichAsins rem asins ucfg w =
     (let cfg = fullConfig ucfg;
          asinStrings = map asin_of asins;
          asinMap = build_asinMap asins
      in case splitBatches (batchSize cfg) 0 asinStrings [] of
           None \<Rightarrow> None
         | Some batches \<Rightarrow>
             (let aw = processBatches rem cfg asinMap (length batches) batches 0 empty_accum w;
                  acc = fst aw
              in Some
                   (\<lparr>res_products = enriched acc,
                     res_metadata =
                       \<lparr>totalAsins = length asinStrings,
                        enrichedCount = length (enriched acc),
                        failedCount = length (failed acc),
                        successRate = (if length asinStrings > 0
                                       then of_nat (length (enriched acc)) / of_nat (length asinStrings)
                                       else 0),
                        batchCount = length batches\<rparr>,
                     res_failed = failed acc,
                     res_errors = (if length (errors acc) > 0 then Some (errors acc) else None)\<rparr>,
                    snd aw)))"

subsection \<open>Reading a trace\<close>

text \<open>
  The trace of one batch holds requests for that batch and back-off waits only, and its
  last event is a request.
\<close>

fun batch_event :: "jsval list \<Rightarrow> event \<Rightarrow> bool" where
  "batch_event b (Request a) = (a = b)"
| "batch_event b (Delay s ms) = (s = Backoff)"

definition batch_trace :: "jsval list \<Rightarrow> event list \<Rightarrow> bool" where
  "batch_trace b t = (t \<noteq> [] \<and> last t = Request b \<and> list_all (batch_event b) t)"

fun is_interbatch :: "event \<Rightarrow> bool" where
  "is_interbatch (Delay s ms) = (s = InterBatch)"
| "is_interbatch (Request a) = False"

text \<open>
  The batches of a trace in the order they were processed: a request concludes a batch
  when it is the last event or the next event is the wait between batches (a request
  followed by a back-off wait is retried).
\<close>

fun completed_batches :: "event list \<Rightarrow> jsval list list" where
  "completed_batches [] = []"
| "completed_batches (Delay s ms # es) = completed_batches es"
| "completed_batches (Request b # es) =
     (if es = [] \<or> is_interbatch (hd es) then b # completed_batches es
      else completed_batches es)"

definition backoffDelays :: "event list \<Rightarrow> int list" where
  "backoffDelays t = concat (map (\<lambda>e. case e of Delay Backoff ms \<Rightarrow> [ms] | _ \<Rightarrow> []) t)"

definition enriched_asins :: "obj list \<Rightarrow> jsval list" where
  "enriched_asins ps = map (\<lambda>p. getp p ''asin'') ps"

text \<open>
  A remote answers a batch completely when each successful response names every
  identifier of the batch exactly once, as an item or as an item error.
\<close>

definition answered :: "response \<Rightarrow> jsval list" where
  "answered r =
     (case r of
        Success d \<Rightarrow>
          map (\<lambda>it. JStr (ASIN it)) (case ItemsResult_Items d of None \<Rightarrow> [] | Some xs \<Rightarrow> xs) @
          map err_ASIN (case Errors d of None \<Rightarrow> [] | Some es \<Rightarrow> es)
      | Failure msg status \<Rightarrow> [])"

definition complete_response :: "jsval list \<Rightarrow> response \<Rightarrow> bool" where
  "complete_response b r = (is_success r \<longrightarrow> mset (answered r) = mset b)"

text \<open>The counts, the failed list and the error list of a run that returned.\<close>

definition run_counts :: "(enrich_result \<times> world) option \<Rightarrow> (nat \<times> nat \<times> nat) option" where
  "run_counts x =
     map_option (\<lambda>rw. (totalAsins (res_metadata (fst rw)), enrichedCount (res_metadata (fst rw)),
                        failedCount (res_metadata (fst rw)))) x"

definition run_failed :: "(enrich_result \<times> world) option \<Rightarrow> jsval list option" where
  "run_failed x = map_option (\<lambda>rw. res_failed (fst rw)) x"

definition run_errors :: "(enrich_result \<times> world) option \<Rightarrow> error_detail list option option" where
  "run_errors x = map_option (\<lambda>rw. res_errors (fst rw)) x"

definition run_products :: "(enrich_result \<times> world) option \<Rightarrow> jsval list option" where
  "run_products x = map_option (\<lambda>rw. enriched_asins (res_products (fst rw))) x"

text \<open>The chunks of a list, as a total function, used to describe the loop's result.\<close>

function chunks :: "nat \<Rightarrow> 'a list \<Rightarrow> 'a list list" where
  "chunks n xs = (if n = 0 \<or> xs = [] then [] else take n xs # chunks n (drop n xs))"
  by pat_completeness auto
termination
  by (relation "measure (\<lambda>(n, xs). length xs)") auto

declare chunks.simps [simp del]

section \<open>Feed assembler: formatProduct\<close>

text \<open>
  The conversion of a value to a string inside a template literal. The decimal rendering
  of a number is the language's own and is taken as a parameter \<open>numstr\<close>.
\<close>

fun js_toString :: "(rat \<Rightarrow> string) \<Rightarrow> jsval \<Rightarrow> string" where
  "js_toString numstr JUndefined = ''undefined''"
| "js_toString numstr JNull = ''null''"
| "js_toString numstr (JBool b) = (if b then ''true'' else ''false'')"
| "js_toString numstr (JNum r) = numstr r"
| "js_toString numstr (JStr s) = s"
| "js_toString numstr (JArr vs) =
     join '','' (map (\<lambda>v. if v = JUndefined \<or> v = JNull then [] else js_toString numstr v) vs)"

text \<open>
  \<^verbatim>\<open>...(cond && { k: v, ... })\<close> inside an object literal: the keys are added when
  \<open>cond\<close> holds, and nothing is added otherwise.
\<close>

definition spread_if :: "bool \<Rightarrow> obj \<Rightarrow> obj" where
  "spread_if cond kvs = (if cond then kvs else Map.empty)"

definition formatProduct :: "(rat \<Rightarrow> string) \<Rightarrow> obj \<Rightarrow> string \<Rightarrow> obj" where
  "formatProduct numstr product tag =
     [''asin'' \<mapsto> getp product ''asin'',
      ''title'' \<mapsto> js_or (getp product ''title'') (JStr ''Unknown Product''),
      ''price'' \<mapsto> getp product ''price'',
      ''currency'' \<mapsto> js_or (getp product ''currency'') (JStr ''USD''),
      ''image_url'' \<mapsto> getp product ''image_url'',
      ''link'' \<mapsto> js_or (getp product ''link'')
         (JStr (''https://www.amazon.com/dp/'' @ js_toString numstr (getp product ''asin'')
                  @ ''?tag='' @ tag)),
      ''rank'' \<mapsto> getp product ''rank'',
      ''ordered_items'' \<mapsto> js_or (getp product ''ordered_items'') (JNum 0),
      ''shipped_revenue'' \<mapsto> js_or (getp product ''shipped_revenue'') (JNum 0),
      ''earnings'' \<mapsto> js_or (getp product ''earnings'') (JNum 0),
      ''clicks'' \<mapsto> js_or (getp product ''clicks'') (JNum 0),
      ''conversion_rate'' \<mapsto> js_or (getp product ''conversion_rate'') (JNum 0)]
     ++ spread_if (getp product ''items_shipped'' \<noteq> JUndefined)
          [''items_shipped'' \<mapsto> getp product ''items_shipped'']
     ++ spread_if (getp product ''revenue_per_click'' \<noteq> JUndefined)
          [''revenue_per_click'' \<mapsto> getp product ''revenue_per_click'']
     ++ spread_if (getp product ''epc'' \<noteq> JUndefined)
          [''epc'' \<mapsto> getp product ''epc'']
     ++ spread_if (getp product ''average_order_value'' \<noteq> JUndefined)
          [''average_order_value'' \<mapsto> getp product ''average_order_value'']
     ++ spread_if (truthy (getp product ''cluster''))
          [''cluster'' \<mapsto> getp product ''cluster'']
     ++ spread_if (truthy (getp product ''availability''))
          [''availability'' \<mapsto> getp product ''availability'']
     ++ spread_if (truthy (getp product ''tags''))
          [''tags'' \<mapsto> getp product ''tags'']
     ++ spread_if (truthy (getp product ''tag''))
          [''tag'' \<mapsto> getp product ''tag'']
     ++ spread_if (truthy (getp product ''is_on_sale''))
          [''is_on_sale'' \<mapsto> getp product ''is_on_sale'',
           ''original_price'' \<mapsto> getp product ''original_price'',
           ''discount_amount'' \<mapsto> getp product ''discount_amount'',
           ''discount_percentage'' \<mapsto> getp product ''discount_percentage'']"

text \<open>
  The four sale fields, and whether an object has a property of a given name
  (\<^verbatim>\<open>name in object\<close>).
\<close>

definition sale_field_names :: "string list" where
  "sale_field_names = [''is_on_sale'', ''original_price'', ''discount_amount'', ''discount_percentage'']"

definition has_field :: "obj \<Rightarrow> string \<Rightarrow> bool" where
  "has_field ob k = (ob k \<noteq> None)"

definition all_sale_fields :: "obj \<Rightarrow> bool" where
  "all_sale_fields ob = list_all (has_field ob) sale_field_names"

definition no_sale_fields :: "obj \<Rightarrow> bool" where
  "no_sale_fields ob = list_all (\<lambda>k. ob k = None) sale_field_names"

text \<open>All four sale fields are present with a value other than \<open>undefined\<close>.\<close>

definition defined_sale_fields :: "obj \<Rightarrow> bool" where
  "defined_sale_fields ob =
     list_all (\<lambda>k. case ob k of None \<Rightarrow> False | Some v \<Rightarrow> v \<noteq> JUndefined) sale_field_names"

section \<open>Tabular parser (aa-csv-parser.js)\<close>

text \<open>
  The line item that \<open>mapRowToProduct\<close> builds, with the fields the aggregator adds
  later. An optional field is \<open>None\<close> when the property is absent or \<open>undefined\<close>.
\<close>

record product =
  asin :: string
  ordered_items :: rat
  shipped_revenue :: rat
  earnings :: rat
  clicks :: rat
  items_shipped :: "rat option"
  conversion_rate :: "rat option"
  tag :: "string option"
  tags :: "string option list option"
  revenue_per_click :: "rat option"
  average_order_value :: "rat option"
  epc :: "rat option"
  rank :: "nat option"

definition COLUMN_MAPPINGS :: "(string \<times> string list) list" where
  "COLUMN_MAPPINGS =
     [(''asin'', [''asin'', ''product asin'', ''product_asin'', ''linking asin'']),
      (''orderedItems'', [''ordered items'', ''ordered_items'', ''items ordered'', ''qty ordered'',
         ''quantity ordered'', ''qty'', ''items shipped'', ''items_shipped'']),
      (''shippedRevenue'', [''shipped revenue'', ''shipped_revenue'', ''revenue'',
         ''shipped earnings'', ''product revenue'', ''revenue($)'', ''revenue ($)'']),
      (''earnings'', [''earnings'', ''publisher earnings'', ''commission'', ''your earnings'',
         ''affiliate earnings'', ''ad fees'', ''ad fees($)'', ''ad fees ($)'']),
      (''clicks'', [''clicks'', ''link clicks'', ''click count'', ''total clicks'']),
      (''conversionRate'', [''conversion rate'', ''conversion_rate'', ''conversion'']),
      (''itemsShipped'', [''items shipped'', ''items_shipped'', ''shipped items'', ''qty shipped'']),
      (''tag'', [''tag'', ''tracking id'', ''tracking_id'', ''associate tag'']),
      (''productName'', [''name'', ''product name'', ''title'', ''product title'']),
      (''dateShipped'', [''date shipped'', ''date_shipped'', ''ship date'', ''shipped date''])]"

text \<open>
  The regular expression \<^verbatim>\<open>/^[B0-9][A-Z0-9]{9}$/i\<close>: ten characters, the first a
  \<open>B\<close> (of either case) or a digit, the others letters (of either case) or digits.
\<close>

definition asinPattern :: "string \<Rightarrow> bool" where
  "asinPattern s =
     (case s of
        [] \<Rightarrow> False
      | c # cs \<Rightarrow>
          (toUpperChar c = CHR ''B'' \<or> is_digit c) \<and> length cs = 9 \<and>
          list_all (\<lambda>d. is_upper d \<or> is_lower d \<or> is_digit d) cs)"

text \<open>
  \<open>isValidASIN\<close>: \<open>None\<close> is a missing cell; it and the empty string are falsy.
\<close>

definition isValidASIN :: "string option \<Rightarrow> bool" where
  "isValidASIN a = (case a of None \<Rightarrow> False | Some s \<Rightarrow> s \<noteq> [] \<and> asinPattern (trim s))"

fun findColumn :: "string list \<Rightarrow> string list \<Rightarrow> string option" where
  "findColumn headers [] = None"
| "findColumn headers (name # rest) =
     (case find (\<lambda>h. trim (toLowerCase h) = toLowerCase name) headers of
        Some h \<Rightarrow> Some h
      | None \<Rightarrow> findColumn headers rest)"

text \<open>
  The column map: a field is entered when \<open>findColumn\<close> returns a non-empty header.
\<close>

definition buildColumnMap :: "string list \<Rightarrow> (string \<rightharpoonup> string)" where
  "buildColumnMap headers =
     fold (\<lambda>(field, possibleNames) columnMap.
             case findColumn headers possibleNames of
               Some matchedColumn \<Rightarrow>
                 if matchedColumn \<noteq> [] then columnMap(field \<mapsto> matchedColumn) else columnMap
             | None \<Rightarrow> columnMap)
          COLUMN_MAPPINGS Map.empty"

text \<open>
  A row is an object from header to cell text. \<open>row[columnMap.f]\<close> with an unmapped
  field reads the property named \<open>undefined\<close>.
\<close>

type_synonym row = "string \<rightharpoonup> string"

definition cell :: "row \<Rightarrow> (string \<rightharpoonup> string) \<Rightarrow> string \<Rightarrow> string option" where
  "cell r columnMap field =
     (case columnMap field of None \<Rightarrow> r ''undefined'' | Some h \<Rightarrow> r h)"

text \<open>
  \<open>parseNumber\<close>: an empty or missing cell is 0; otherwise \<open>$\<close>, commas and white
  space are removed and the rest goes to \<open>parseFloat\<close>, a parameter of the model that
  returns \<open>None\<close> for \<open>NaN\<close>.
\<close>

definition parseNumber :: "(string \<Rightarrow> rat option) \<Rightarrow> string option \<Rightarrow> rat" where
  "parseNumber parseFloat v =
     (case v of
        None \<Rightarrow> 0
      | Some s \<Rightarrow>
          if s = [] then 0
          else (case parseFloat (filter (\<lambda>c. c \<noteq> CHR ''$'' \<and> c \<noteq> CHR '','' \<and> \<not> is_space c) s) of
                  None \<Rightarrow> 0
                | Some x \<Rightarrow> x))"

definition mapRowToProduct ::
  "(string \<Rightarrow> rat option) \<Rightarrow> row \<Rightarrow> (string \<rightharpoonup> string) \<Rightarrow> product option" where
  "mapRowToProduct parseFloat r columnMap =
     (case map_option trim (cell r columnMap ''asin'') of
        None \<Rightarrow> None
      | Some a \<Rightarrow>
          if \<not> isValidASIN (Some a) then None
          else
            (let oi = parseNumber parseFloat (cell r columnMap ''orderedItems'');
                 cl = parseNumber parseFloat (cell r columnMap ''clicks'')
             in Some
                  \<lparr>asin = a,
                   ordered_items = oi,
                   shipped_revenue = parseNumber parseFloat (cell r columnMap ''shippedRevenue''),
                   earnings = parseNumber parseFloat (cell r columnMap ''earnings''),
                   clicks = cl,
                   items_shipped =
                     (if columnMap ''itemsShipped'' \<noteq> None
                      then Some (parseNumber parseFloat (cell r columnMap ''itemsShipped''))
                      else None),
                   conversion_rate =
                     (if columnMap ''conversionRate'' \<noteq> None
                      then Some (parseNumber parseFloat (cell r columnMap ''conversionRate''))
                      else if cl > 0 \<and> oi > 0 then Some (oi / cl) else None),
                   tag =
                     (if columnMap ''tag'' \<noteq> None
                      then map_option trim (cell r columnMap ''tag'') else None),
                   tags = None,
                   revenue_per_click = None,
                   average_order_value = None,
                   epc = None,
                   rank = None\<rparr>))"

subsection \<open>The entry points\<close>

text \<open>
  Reading the file and splitting it into a header row and data rows is done by libraries;
  the entry points are modelled from the parsed table on. An entry point either returns
  an object, \<^verbatim>\<open>{ success: true, ... }\<close> or \<^verbatim>\<open>{ success: false, error }\<close>, or throws.
  Warnings are the lines the entry point itself writes with \<open>console.warn\<close> about the
  columns; the line that repeats the errors of the CSV library is not modelled.
\<close>

datatype parse_error =
    MissingRequiredColumns "string list" "string list"
  | XlsxEmpty
  | UnsupportedFormat string

datatype warning = ClicksColumnNotFound

record row_error =
  re_row :: nat
  re_error :: string

record parse_metadata =
  totalRows :: nat
  validProducts :: nat
  invalidRows :: nat
  uniqueAsins :: nat
  totalOrderedItems :: rat
  totalRevenue :: rat
  totalEarnings :: rat
  totalClicks :: rat
  averageConversionRate :: rat

record parse_success =
  ps_products :: "product list"
  ps_metadata :: parse_metadata
  ps_errors :: "row_error list option"

datatype parse_return = ParseSuccess parse_success | ParseFailure parse_error

datatype 'a outcome = Returned 'a | Thrown parse_error

definition missingFields :: "string list \<Rightarrow> (string \<rightharpoonup> string) \<Rightarrow> string list" where
  "missingFields requiredFields columnMap = filter (\<lambda>field. columnMap field = None) requiredFields"

definition parse_metadata_of :: "nat \<Rightarrow> product list \<Rightarrow> parse_metadata" where
  "parse_metadata_of nrows products =
     \<lparr>totalRows = nrows,
      validProducts = length products,
      invalidRows = nrows - length products,
      uniqueAsins = card (set (map asin products)),
      totalOrderedItems = sum_list (map ordered_items products),
      totalRevenue = sum_list (map shipped_revenue products),
      totalEarnings = sum_list (map earnings products),
      totalClicks = sum_list (map clicks products),
      averageConversionRate =
        (if sum_list (map clicks products) > 0
         then sum_list (map ordered_items products) / sum_list (map clicks products) else 0)\<rparr>"

text \<open>
  The row loop of \<open>parseCSV\<close> and of the spreadsheet branch of \<open>parseFile\<close>: a row that
  maps to no product is recorded with its row number \<open>i + 2\<close> unless invalid rows are
  skipped.
\<close>

fun parseRows ::
  "(string \<Rightarrow> rat option) \<Rightarrow> (string \<rightharpoonup> string) \<Rightarrow> bool \<Rightarrow> nat \<Rightarrow> row list
     \<Rightarrow> product list \<times> row_error list" where
  "parseRows parseFloat columnMap skipInvalidRows i [] = ([], [])"
| "parseRows parseFloat columnMap skipInvalidRows i (r # rs) =
     (let rest = parseRows parseFloat columnMap skipInvalidRows (Suc i) rs in
      case mapRowToProduct parseFloat r columnMap of
        Some p \<Rightarrow> (p # fst rest, snd rest)
      | None \<Rightarrow>
          if \<not> skipInvalidRows
          then (fst rest, \<lparr>re_row = i + 2, re_error = ''Invalid or missing ASIN''\<rparr> # snd rest)
          else rest)"

definition parsedTable ::
  "(string \<Rightarrow> rat option) \<Rightarrow> (string \<rightharpoonup> string) \<Rightarrow> bool \<Rightarrow> row list \<Rightarrow> parse_success" where
  "parsedTable parseFloat columnMap skipInvalidRows rows =
     (let pe = parseRows parseFloat columnMap skipInvalidRows 0 rows in
      \<lparr>ps_products = fst pe,
       ps_metadata = parse_metadata_of (length rows) (fst pe),
       ps_errors = (if length (snd pe) > 0 then Some (snd pe) else None)\<rparr>)"

text \<open>
  \<open>parseCSV\<close> (the current one, with the \<open>clicks\<close> column optional). Its body is inside
  \<open>try\<close>/\<open>catch\<close>: the error it throws for a missing required column is returned as
  \<^verbatim>\<open>{ success: false, error }\<close>. \<open>skipInvalidRows\<close> defaults to true.
\<close>

definition parseCSV ::
  "(string \<Rightarrow> rat option) \<Rightarrow> string list \<Rightarrow> row list \<Rightarrow> bool option
     \<Rightarrow> warning list \<times> parse_return" where
  "parseCSV parseFloat headers rows skipInvalidRows =
     (let columnMap = buildColumnMap headers;
          missing = missingFields [''asin'', ''orderedItems'', ''shippedRevenue'', ''earnings''] columnMap
      in if length missing > 0
         then ([], ParseFailure (MissingRequiredColumns missing headers))
         else (if columnMap ''clicks'' = None then [ClicksColumnNotFound] else [],
               ParseSuccess
                 (parsedTable parseFloat columnMap
                    (case skipInvalidRows of None \<Rightarrow> True | Some b \<Rightarrow> b) rows)))"

text \<open>
  \<open>parseCSVString\<close> has no \<open>try\<close>/\<open>catch\<close>, records no row errors, and lists
  \<open>clicks\<close> among the required fields.
\<close>

definition parseCSVString ::
  "(string \<Rightarrow> rat option) \<Rightarrow> string list \<Rightarrow> row list \<Rightarrow> (warning list \<times> parse_success) outcome" where
  "parseCSVString parseFloat headers rows =
     (let columnMap = buildColumnMap headers;
          missing = missingFields
            [''asin'', ''orderedItems'', ''shippedRevenue'', ''earnings'', ''clicks''] columnMap
      in if length missing > 0
         then Thrown (MissingRequiredColumns missing headers)
         else (let products = List.map_filter (\<lambda>r. mapRowToProduct parseFloat r columnMap) rows in
               Returned ([],
                 \<lparr>ps_products = products,
                  ps_metadata = parse_metadata_of (length rows) products,
                  ps_errors = None\<rparr>)))"

text \<open>
  \<open>detectFileFormat\<close>: the text after the last dot of the lower-cased path.
\<close>

datatype file_format = CSV | XLSX | Unknown

definition extension :: "string \<Rightarrow> string" where
  "extension filePath = rev (takeWhile (\<lambda>c. c \<noteq> CHR ''.'') (rev (toLowerCase filePath)))"

definition detectFileFormat :: "string \<Rightarrow> file_format" where
  "detectFileFormat filePath =
     (let ext = extension filePath in
      if ext = ''csv'' then CSV
      else if ext = ''xlsx'' \<or> ext = ''xls'' then XLSX
      else Unknown)"

text \<open>
  \<open>parseFile\<close>. For a spreadsheet the rows come from \<open>parseXLSX\<close> and the headers are
  the keys of the first row, here the argument \<open>headers\<close>; this branch is not inside
  \<open>try\<close>/\<open>catch\<close>, and it reads \<open>options.skipInvalidRows\<close> without a default.
\<close>

definition parseFile ::
  "(string \<Rightarrow> rat option) \<Rightarrow> string \<Rightarrow> string list \<Rightarrow> row list \<Rightarrow> bool option
     \<Rightarrow> (warning list \<times> parse_return) outcome" where
  "parseFile parseFloat filePath headers rows skipInvalidRows =
     (case detectFileFormat filePath of
        CSV \<Rightarrow> Returned (parseCSV parseFloat headers rows skipInvalidRows)
      | XLSX \<Rightarrow>
          if length rows = 0 then Returned ([], ParseFailure XlsxEmpty)
          else
            (let columnMap = buildColumnMap headers;
                 missing = missingFields
                   [''asin'', ''orderedItems'', ''shippedRevenue'', ''earnings''] columnMap
             in if length missing > 0
                then Thrown (MissingRequiredColumns missing headers)
                else Returned
                       (if columnMap ''clicks'' = None then [ClicksColumnNotFound] else [],
                        ParseSuccess
                          (parsedTable parseFloat columnMap
                             (case skipInvalidRows of None \<Rightarrow> False | Some b \<Rightarrow> b) rows)))
      | Unknown \<Rightarrow> Thrown (UnsupportedFormat filePath))"

text \<open>Whether an entry point returned \<^verbatim>\<open>{ success: true, ... }\<close>, and its products.\<close>

fun returned_success :: "parse_return \<Rightarrow> bool" where
  "returned_success (ParseSuccess ps) = True"
| "returned_success (ParseFailure e) = False"

fun returned_products :: "parse_return \<Rightarrow> product list" where
  "returned_products (ParseSuccess ps) = ps_products ps"
| "returned_products (ParseFailure e) = []"

fun outcome_success :: "(warning list \<times> parse_return) outcome \<Rightarrow> bool" where
  "outcome_success (Returned wr) = returned_success (snd wr)"
| "outcome_success (Thrown e) = False"

fun outcome_warnings :: "(warning list \<times> parse_return) outcome \<Rightarrow> warning list" where
  "outcome_warnings (Returned wr) = fst wr"
| "outcome_warnings (Thrown e) = []"

section \<open>Aggregator and ranker (asin-aggregator.js)\<close>

subsection \<open>aggregateByAsin\<close>

text \<open>
  The update of an existing entry of \<open>asinMap\<close> with another product of the same
  identifier. \<open>delete existing.tag\<close> leaves the tag absent; the array \<open>tags\<close> may then
  hold \<open>undefined\<close> (here \<open>None\<close>) when the first product had no tag.
\<close>

definition aggregate_existing :: "product \<Rightarrow> product \<Rightarrow> product" where
  "aggregate_existing existing p =
     (let tagged = (case tag p of None \<Rightarrow> False | Some t \<Rightarrow> t \<noteq> [] \<and> tag p \<noteq> tag existing);
          tags0 = (case tags existing of None \<Rightarrow> [tag existing] | Some ts \<Rightarrow> ts);
          tags1 = (if tag p \<in> set tags0 then tags0 else tags0 @ [tag p])
      in existing
           \<lparr>ordered_items := ordered_items existing + ordered_items p,
            shipped_revenue := shipped_revenue existing + shipped_revenue p,
            earnings := earnings existing + earnings p,
            clicks := clicks existing + clicks p,
            items_shipped :=
              (case items_shipped p of
                 None \<Rightarrow> items_shipped existing
               | Some v \<Rightarrow> Some ((case items_shipped existing of None \<Rightarrow> 0 | Some e \<Rightarrow> e) + v)),
            tag := (if tagged \<and> tags existing = None then None else tag existing),
            tags := (if tagged then Some tags1 else tags existing)\<rparr>)"

text \<open>
  \<open>asinMap\<close> is a \<open>Map\<close>, which iterates in insertion order: an association list
  where a new identifier is appended and an existing one updated in place.
\<close>

fun asinMap_add :: "product \<Rightarrow> (string \<times> product) list \<Rightarrow> (string \<times> product) list" where
  "asinMap_add p [] = [(asin p, p)]"
| "asinMap_add p ((k, existing) # rest) =
     (if k = asin p then (k, aggregate_existing existing p) # rest
      else (k, existing) # asinMap_add p rest)"

definition derived_metrics :: "product \<Rightarrow> product" where
  "derived_metrics p =
     p\<lparr>conversion_rate := Some (if clicks p > 0 then ordered_items p / clicks p else 0),
       revenue_per_click := Some (if clicks p > 0 then shipped_revenue p / clicks p else 0),
       average_order_value :=
         Some (if ordered_items p > 0 then shipped_revenue p / ordered_items p else 0),
       epc := Some (if clicks p > 0 then earnings p / clicks p else 0)\<rparr>"

definition aggregateByAsin :: "product list \<Rightarrow> product list" where
  "aggregateByAsin products =
     map (\<lambda>(k, p). derived_metrics p) (fold asinMap_add products [])"

subsection \<open>rankProducts\<close>

text \<open>
  A ranking strategy is a comparator \<^verbatim>\<open>(a, b) => b.m - a.m\<close>: descending in the metric
  \<open>m\<close>. The table gives the metric of each of its five keys (property names that a
  JavaScript object inherits are not modelled). The derived metrics are numbers after
  \<open>aggregateByAsin\<close>; an absent one, possible only when \<open>rankProducts\<close> is called on
  other lists, is read as 0 here.
\<close>

definition metric_or_zero :: "rat option \<Rightarrow> rat" where
  "metric_or_zero v = (case v of None \<Rightarrow> 0 | Some x \<Rightarrow> x)"

definition RANKING_STRATEGIES :: "string \<Rightarrow> (product \<Rightarrow> rat) option" where
  "RANKING_STRATEGIES rankBy =
     (if rankBy = ''ordered_items'' then Some ordered_items
      else if rankBy = ''shipped_revenue'' then Some shipped_revenue
      else if rankBy = ''earnings'' then Some earnings
      else if rankBy = ''conversion_rate'' then Some (\<lambda>p. metric_or_zero (conversion_rate p))
      else if rankBy = ''revenue_per_click'' then Some (\<lambda>p. metric_or_zero (revenue_per_click p))
      else None)"

datatype rank_error = InvalidRankingStrategy string

text \<open>
  \<open>Array.prototype.sort\<close> is stable, so sorting with the comparator is the stable sort
  by the negated metric. Then \<open>rank = index + 1\<close>.
\<close>

definition add_ranks :: "product list \<Rightarrow> product list" where
  "add_ranks ps = map (\<lambda>(p, index). p\<lparr>rank := Some (index + 1)\<rparr>) (zip ps [0 ..< length ps])"

definition rankProducts :: "product list \<Rightarrow> string \<Rightarrow> rank_error + product list" where
  "rankProducts products rankBy =
     (case RANKING_STRATEGIES rankBy of
        None \<Rightarrow> Inl (InvalidRankingStrategy rankBy)
      | Some metric \<Rightarrow> Inr (add_ranks (sort_key (\<lambda>p. - metric p) products)))"

subsection \<open>filterProducts\<close>

record filters =
  minOrderedItems :: "rat option"
  minRevenue :: "rat option"
  minEarnings :: "rat option"
  minConversionRate :: "rat option"
  minClicks :: "rat option"
  excludeAsins :: "string list option"
  includeAsins :: "string list option"

definition no_filters :: filters where
  "no_filters = \<lparr>minOrderedItems = None, minRevenue = None, minEarnings = None,
     minConversionRate = None, minClicks = None, excludeAsins = None, includeAsins = None\<rparr>"

definition filterProducts :: "product list \<Rightarrow> filters \<Rightarrow> product list" where
  "filterProducts products f =
     (let f1 = (case minOrderedItems f of None \<Rightarrow> products
                | Some m \<Rightarrow> filter (\<lambda>p. ordered_items p \<ge> m) products);
          f2 = (case minRevenue f of None \<Rightarrow> f1
                | Some m \<Rightarrow> filter (\<lambda>p. shipped_revenue p \<ge> m) f1);
          f3 = (case minEarnings f of None \<Rightarrow> f2
                | Some m \<Rightarrow> filter (\<lambda>p. earnings p \<ge> m) f2);
          f4 = (case minConversionRate f of None \<Rightarrow> f3
                | Some m \<Rightarrow> filter (\<lambda>p. case conversion_rate p of None \<Rightarrow> False | Some c \<Rightarrow> c \<ge> m) f3);
          f5 = (case minClicks f of None \<Rightarrow> f4
                | Some m \<Rightarrow> filter (\<lambda>p. clicks p \<ge> m) f4);
          f6 = (case excludeAsins f of None \<Rightarrow> f5
                | Some ex \<Rightarrow> filter (\<lambda>p. asin p \<notin> set ex) f5);
          f7 = (case includeAsins f of None \<Rightarrow> f6
                | Some inc \<Rightarrow> filter (\<lambda>p. asin p \<in> set inc) f6)
      in f7)"

subsection \<open>aggregateAndRank\<close>

text \<open>
  \<open>rankBy\<close> defaults to \<open>ordered_items\<close> and \<open>topN\<close> to \<open>null\<close> (here \<open>None\<close>).
  A number is truthy when it is not zero. In the metadata, \<open>topN || 'all'\<close> is the
  number when it is truthy and \<open>all\<close> (here \<open>None\<close>) otherwise.
\<close>

record options =
  rankBy :: "string option"
  topN :: "int option"
  opt_filters :: filters

record summary =
  sum_totalOrderedItems :: rat
  sum_totalRevenue :: rat
  sum_totalEarnings :: rat
  sum_totalClicks :: rat
  avgOrderedItems :: rat
  avgRevenue :: rat
  avgEarnings :: rat
  avgConversionRate :: rat
  avgRevenuePerClick :: rat
  avgEPC :: rat

record rank_metadata =
  totalProducts :: nat
  filteredProducts :: nat
  returnedProducts :: nat
  rankingMetric :: string
  md_topN :: "int option"
  md_summary :: summary

datatype rank_result =
    RankSuccess "product list" rank_metadata
  | RankFailure rank_error

definition topN_truthy :: "int option \<Rightarrow> bool" where
  "topN_truthy n = (case n of None \<Rightarrow> False | Some k \<Rightarrow> k \<noteq> 0)"

definition summary_of :: "product list \<Rightarrow> summary" where
  "summary_of topProducts =
     (let totalOrderedItems = sum_list (map ordered_items topProducts);
          totalRevenue = sum_list (map shipped_revenue topProducts);
          totalEarnings = sum_list (map earnings topProducts);
          totalClicks = sum_list (map clicks topProducts);
          n = of_nat (length topProducts)
      in \<lparr>sum_totalOrderedItems = totalOrderedItems,
          sum_totalRevenue = totalRevenue,
          sum_totalEarnings = totalEarnings,
          sum_totalClicks = totalClicks,
          avgOrderedItems = (if length topProducts > 0 then totalOrderedItems / n else 0),
          avgRevenue = (if length topProducts > 0 then totalRevenue / n else 0),
          avgEarnings = (if length topProducts > 0 then totalEarnings / n else 0),
          avgConversionRate = (if totalClicks > 0 then totalOrderedItems / totalClicks else 0),
          avgRevenuePerClick = (if totalClicks > 0 then totalRevenue / totalClicks else 0),
          avgEPC = (if totalClicks > 0 then totalEarnings / totalClicks else 0)\<rparr>)"

definition aggregateAndRank :: "product list \<Rightarrow> options \<Rightarrow> rank_result" where
  "aggregateAndRank products opts =
     (let rankBy' = (case rankBy opts of None \<Rightarrow> ''ordered_items'' | Some k \<Rightarrow> k);
          aggregated = aggregateByAsin products;
          filtered = filterProducts aggregated (opt_filters opts)
      in case rankProducts filtered rankBy' of
           Inl err \<Rightarrow> RankFailure err
         | Inr ranked \<Rightarrow>
             (let topProducts =
                    (if topN_truthy (topN opts)
                     then js_slice 0 (case topN opts of None \<Rightarrow> 0 | Some k \<Rightarrow> k) ranked
                     else ranked)
              in RankSuccess topProducts
                   \<lparr>totalProducts = length aggregated,
                    filteredProducts = length filtered,
                    returnedProducts = length topProducts,
                    rankingMetric = rankBy',
                    md_topN = (if topN_truthy (topN opts) then topN opts else None),
                    md_summary = summary_of topProducts\<rparr>))"

text \<open>The products of a result; a failure carries the empty list.\<close>

fun result_products :: "rank_result \<Rightarrow> product list" where
  "result_products (RankSuccess ps md) = ps"
| "result_products (RankFailure err) = []"

section \<open>Example inputs\<close>

text \<open>A remote that times out on every request, and one that answers with nothing.\<close>

definition timeout_remote :: remote where
  "timeout_remote h b = Failure ''timeout'' None"

definition silent_remote :: remote where
  "silent_remote h b = Success \<lparr>ItemsResult_Items = None, Errors = None\<rparr>"

definition bare_item :: "string \<Rightarrow> item" where
  "bare_item s = \<lparr>ASIN = s, ItemInfo_Title_DisplayValue = None, Offers_Listings = None,
     Images_Primary_Medium_URL = None, DetailPageURL = None\<rparr>"

definition rejection :: "jsval \<Rightarrow> item_error" where
  "rejection a = \<lparr>err_ASIN = a, err_Code = Some ''ItemNotAccessible'', err_Message = None,
     err_message = None\<rparr>"

text \<open>
  A remote whose first request is lost and that afterwards returns an item for every
  identifier ending in a digit other than 0 and an item error for every other one.
\<close>

fun accessible :: "jsval \<Rightarrow> bool" where
  "accessible (JStr s) = (s \<noteq> [] \<and> last s \<noteq> CHR ''0'')"
| "accessible v = False"

fun item_of :: "jsval \<Rightarrow> item list" where
  "item_of (JStr s) = (if accessible (JStr s) then [bare_item s] else [])"
| "item_of v = []"

definition mixed_remote :: remote where
  "mixed_remote h b =
     (if h = [] then Failure ''ECONNRESET'' None
      else Success
        \<lparr>ItemsResult_Items = Some (concat (map item_of b)),
         Errors = Some (map rejection (filter (\<lambda>a. \<not> accessible a) b))\<rparr>)"

definition twelve_asins :: "asin_item list" where
  "twelve_asins = map AsinString
     [''B000000001'', ''B000000002'', ''B000000003'', ''B000000004'', ''B000000005'',
      ''B000000006'', ''B000000007'', ''B000000008'', ''B000000009'', ''B000000010'',
      ''B000000011'', ''B000000012'']"

text \<open>
  A response item with a current price and a list price, an enriched product on sale,
  and one without sale fields.
\<close>

definition priced_item :: "rat \<Rightarrow> rat \<Rightarrow> item" where
  "priced_item price listPrice =
     \<lparr>ASIN = ''B07PGL2ZSL'',
      ItemInfo_Title_DisplayValue = Some ''Kettle'',
      Offers_Listings = Some
        [\<lparr>Price = Some \<lparr>Amount = Some price, Currency = Some ''USD''\<rparr>,
          SavingBasis = Some \<lparr>Amount = Some listPrice, Currency = Some ''USD''\<rparr>,
          Availability_Type = Some ''Now''\<rparr>],
      Images_Primary_Medium_URL = None,
      DetailPageURL = None\<rparr>"

text \<open>
  The doubles nearest to 29.99 and 49.99, and the item priced 29.99 with list price 49.99.
\<close>

definition d29_99 :: rat where
  "d29_99 = 8441434551552573 / 281474976710656"

definition d49_99 :: rat where
  "d49_99 = 7035467042882847 / 140737488355328"

definition scenario_item :: item where
  "scenario_item = priced_item d29_99 d49_99"

definition sale_product :: obj where
  "sale_product = [''asin'' \<mapsto> JStr ''B07PGL2ZSL'', ''price'' \<mapsto> JNum (2999 / 100),
     ''is_on_sale'' \<mapsto> JBool True, ''original_price'' \<mapsto> JNum (4999 / 100),
     ''discount_amount'' \<mapsto> JNum 20, ''discount_percentage'' \<mapsto> JNum 40]"

definition plain_product :: obj where
  "plain_product = [''asin'' \<mapsto> JStr ''B07PGL2ZSL'', ''price'' \<mapsto> JNum (2999 / 100)]"

text \<open>
  A report without a clicks column, and two rows whose identifiers differ only in letter
  case. \<open>no_float\<close> is a \<open>parseFloat\<close> that parses nothing.
\<close>

definition no_clicks_headers :: "string list" where
  "no_clicks_headers = [''ASIN'', ''Ordered Items'', ''Shipped Revenue'', ''Earnings'']"

definition no_float :: "string \<Rightarrow> rat option" where
  "no_float s = None"

definition report_row :: "string \<Rightarrow> row" where
  "report_row a = [''ASIN'' \<mapsto> a, ''Ordered Items'' \<mapsto> ''5'', ''Shipped Revenue'' \<mapsto> ''$10.00'',
     ''Earnings'' \<mapsto> ''1.00'']"

definition case_rows :: "row list" where
  "case_rows = [report_row ''b07pgl2zsl'', report_row ''B07PGL2ZSL'']"

text \<open>Two line items, ranked by revenue.\<close>

definition line_item :: "string \<Rightarrow> rat \<Rightarrow> product" where
  "line_item a revenue =
     \<lparr>asin = a, ordered_items = 1, shipped_revenue = revenue, earnings = 1, clicks = 4,
      items_shipped = None, conversion_rate = None, tag = None, tags = None,
      revenue_per_click = None, average_order_value = None, epc = None, rank = None\<rparr>"

definition two_items :: "product list" where
  "two_items = [line_item ''B0000000A1'' 10, line_item ''B0000000B2'' 50]"

definition by_revenue :: options where
  "by_revenue = \<lparr>rankBy = Some ''shipped_revenue'', topN = None, opt_filters = no_filters\<rparr>"

section \<open>Rounding to a double keeps the sign\<close>

lemma log2floor_bounds:
  "1 \<le> n \<Longrightarrow> 0 \<le> log2floor n \<and> 2 ^ nat (log2floor n) \<le> n \<and> n < 2 * 2 ^ nat (log2floor n)"
proof (induction n rule: log2floor.induct)
  case (1 n)
  show ?case
  proof (cases "n < 2")
    case True
    then have n: "n = 1" using "1.prems" by simp
    have "log2floor 1 = 0" by (subst log2floor.simps) simp
    then show ?thesis using n by simp
  next
    case False
    then have h: "1 \<le> n div 2" by simp
    let ?k = "log2floor (n div 2)"
    have ih: "0 \<le> ?k" "2 ^ nat ?k \<le> n div 2" "n div 2 < 2 * 2 ^ nat ?k"
      using "1.IH" [OF False h] by simp_all
    have unf: "log2floor n = 1 + ?k" using False by (subst log2floor.simps) simp
    have pw: "(2::int) ^ nat (1 + ?k) = 2 * 2 ^ nat ?k"
      using ih(1) by (simp add: nat_add_distrib)
    have lo: "2 * (2::int) ^ nat ?k \<le> n" using ih(2) by linarith
    have hi: "n < 2 * (2 * (2::int) ^ nat ?k)" using ih(3) by linarith
    show ?thesis unfolding unf pw using ih(1) lo hi by simp
  qed
qed

lemma powi_nat: "0 \<le> e \<Longrightarrow> (2::rat) powi e = of_int (2 ^ nat e)"
  by (simp add: power_int_def)

lemma binade_le:
  assumes "0 < x"
  shows "2 powi (binade x) \<le> x"
proof -
  obtain p q where pq: "quotient_of x = (p, q)" by (cases "quotient_of x")
  have q: "0 < q" using pq by (rule quotient_of_denom_pos)
  have x: "x = of_int p / of_int q" using pq by (rule quotient_of_div)
  have p: "0 < p" using assms q x by (simp add: zero_less_divide_iff)
  let ?lp = "log2floor p" and ?lq = "log2floor q"
  have bp: "0 \<le> ?lp" "2 ^ nat ?lp \<le> p" using log2floor_bounds [of p] p by simp_all
  have bq: "0 \<le> ?lq" "q < 2 * 2 ^ nat ?lq" using log2floor_bounds [of q] q by simp_all
  have lo: "(2::rat) powi ?lp \<le> of_int p"
    unfolding powi_nat [OF bp(1)] using bp(2) by (simp only: of_int_le_iff)
  have "of_int q < (of_int (2 * 2 ^ nat ?lq) :: rat)"
    using bq(2) by (simp only: of_int_less_iff)
  also have "(of_int (2 * 2 ^ nat ?lq) :: rat) = 2 powi (?lq + 1)"
    using bq(1) by (simp add: power_int_def nat_add_distrib)
  finally have hi: "of_int q \<le> (2::rat) powi (?lq + 1)" by simp
  have "(2::rat) powi (?lp - ?lq - 1) = 2 powi ?lp / 2 powi (?lq + 1)"
    using power_int_diff [of "2::rat" ?lp "?lq + 1"] by (simp add: algebra_simps)
  also have "\<dots> \<le> of_int p / of_int q"
  proof -
    have q': "0 < (of_int q :: rat)" using q by simp
    have nn: "0 \<le> (of_int p :: rat)" using p by simp
    show ?thesis by (rule frac_le [OF nn lo q' hi])
  qed
  finally have below: "(2::rat) powi (?lp - ?lq - 1) \<le> x" using x by simp
  show ?thesis
    using below pq by (simp add: binade_def Let_def)
qed

lemma round_half_even_near:
  "y - 1 / 2 \<le> of_int (round_half_even y) \<and> of_int (round_half_even y) \<le> y + 1 / 2"
proof -
  let ?n = "\<lfloor>y\<rfloor>"
  have fl: "of_int ?n \<le> y" "y < of_int ?n + 1" by linarith+
  consider "y - of_int ?n < 1 / 2" | "1 / 2 < y - of_int ?n" | "y - of_int ?n = 1 / 2"
    by linarith
  then show ?thesis
  proof cases
    case 1
    then have eq: "round_half_even y = ?n" by (simp add: round_half_even_def Let_def)
    from fl 1 show ?thesis unfolding eq by (intro conjI) linarith+
  next
    case 2
    then have eq: "round_half_even y = ?n + 1" by (simp add: round_half_even_def Let_def)
    from fl 2 show ?thesis unfolding eq of_int_add of_int_1 by (intro conjI) linarith+
  next
    case 3
    then have "round_half_even y = ?n \<or> round_half_even y = ?n + 1"
      by (simp add: round_half_even_def Let_def)
    then show ?thesis
    proof
      assume eq: "round_half_even y = ?n"
      from fl 3 show ?thesis unfolding eq by (intro conjI) linarith+
    next
      assume eq: "round_half_even y = ?n + 1"
      from fl 3 show ?thesis unfolding eq of_int_add of_int_1 by (intro conjI) linarith+
    qed
  qed
qed

lemma double_unit:
  assumes "x \<noteq> 0"
  shows "0 < (2::rat) powi (binade \<bar>x\<bar> - 52) \<and> 2 powi (binade \<bar>x\<bar> - 52) \<le> \<bar>x\<bar>"
proof -
  have "(2::rat) powi (binade \<bar>x\<bar> - 52) \<le> 2 powi (binade \<bar>x\<bar>)"
    by (rule power_int_increasing) simp_all
  also have "\<dots> \<le> \<bar>x\<bar>" using assms by (intro binade_le) simp
  finally show ?thesis by (simp add: zero_less_power_int)
qed

lemma to_double_pos:
  assumes "0 < x"
  shows "0 < to_double x"
proof -
  let ?u = "(2::rat) powi (binade \<bar>x\<bar> - 52)"
  have u: "0 < ?u" "?u \<le> x" using double_unit [of x] assms by simp_all
  have "1 \<le> x / ?u" using u by (simp add: pos_le_divide_eq)
  moreover have "x / ?u - 1 / 2 \<le> of_int (round_half_even (x / ?u))"
    using round_half_even_near [of "x / ?u"] by blast
  ultimately have "0 < (of_int (round_half_even (x / ?u)) :: rat)" by linarith
  then have "0 < of_int (round_half_even (x / ?u)) * ?u" using u(1) by simp
  then show ?thesis using assms by (simp add: to_double_def Let_def)
qed

lemma to_double_neg:
  assumes "x < 0"
  shows "to_double x < 0"
proof -
  let ?u = "(2::rat) powi (binade \<bar>x\<bar> - 52)"
  have u: "0 < ?u" "?u \<le> - x" using double_unit [of x] assms by simp_all
  have "x / ?u \<le> - 1" using u by (simp add: pos_divide_le_eq)
  moreover have "of_int (round_half_even (x / ?u)) \<le> x / ?u + 1 / 2"
    using round_half_even_near [of "x / ?u"] by blast
  ultimately have "(of_int (round_half_even (x / ?u)) :: rat) < 0" by linarith
  then have "of_int (round_half_even (x / ?u)) * ?u < 0" using u(1) by (simp add: mult_less_0_iff)
  then show ?thesis using assms by (simp add: to_double_def Let_def)
qed

lemma to_double_pos_iff: "(0 < to_double x) = (0 < x)"
proof (cases "0 < x")
  case True
  then show ?thesis using to_double_pos by simp
next
  case False
  then have "x = 0 \<or> x < 0" by linarith
  then have "to_double x \<le> 0"
    using to_double_neg [of x] by (auto simp: to_double_def)
  then show ?thesis using False by simp
qed

lemma double_sub_pos: "(0 < double_sub a p) = (p < a)"
  by (simp add: double_sub_def to_double_pos_iff)

section \<open>Batching\<close>

lemma js_slice_window:
  assumes "0 \<le> i" "i < int (length xs)" "0 < b"
  shows "js_slice i (i + b) xs = take (nat b) (drop (nat i) xs)"
proof -
  have "nat (min (i + b) (int (length xs)) - i) = min (nat b) (length xs - nat i)"
    using assms by (auto simp: min_def)
  then show ?thesis
    using assms by (simp add: js_slice_def Let_def min_def)
qed

lemma splitBatches_chunks:
  assumes "0 < b" "0 \<le> i"
  shows "splitBatches b i xs acc = Some (acc @ chunks (nat b) (drop (nat i) xs))"
  using assms
proof (induction "length xs - nat i" arbitrary: i acc rule: less_induct)
  case less
  show ?case
  proof (cases "i < int (length xs)")
    case False
    then have "drop (nat i) xs = []" using less.prems by simp
    then show ?thesis
      using False by (subst splitBatches.simps) (simp add: chunks.simps)
  next
    case True
    have ne: "drop (nat i) xs \<noteq> []" using True less.prems by simp
    have smaller: "length xs - nat (i + b) < length xs - nat i"
      using True less.prems by linarith
    have nxt: "splitBatches b (i + b) xs (acc @ [js_slice i (i + b) xs]) =
        Some ((acc @ [js_slice i (i + b) xs]) @ chunks (nat b) (drop (nat (i + b)) xs))"
      using less.hyps [OF smaller] less.prems by simp
    have dd: "drop (nat (i + b)) xs = drop (nat b) (drop (nat i) xs)"
      using less.prems by (simp add: nat_add_distrib add.commute)
    have "chunks (nat b) (drop (nat i) xs) =
        take (nat b) (drop (nat i) xs) # chunks (nat b) (drop (nat b) (drop (nat i) xs))"
      using ne less.prems by (subst chunks.simps) simp
    then show ?thesis
      using True nxt dd js_slice_window [OF less.prems(2) True less.prems(1)]
      by (subst splitBatches.simps) simp
  qed
qed

lemma concat_chunks: "0 < n \<Longrightarrow> concat (chunks n xs) = xs"
proof (induction n xs rule: chunks.induct)
  case (1 n xs)
  then show ?case by (subst chunks.simps) auto
qed

lemma ceil_step:
  fixes n m :: nat
  assumes "0 < n" "0 < m"
  shows "Suc ((m - n + n - 1) div n) = (m + n - 1) div n"
proof -
  obtain k where k: "m = Suc k" using assms by (cases m) auto
  have rhs: "(m + n - 1) div n = Suc (k div n)"
    using assms k by (simp add: div_add_self2)
  show ?thesis
  proof (cases "n \<le> m")
    case True
    then have "m - n + n - 1 = k" using k by simp
    with rhs show ?thesis by simp
  next
    case False
    then have "k < n" "m - n + n - 1 < n" using k assms by auto
    then have "k div n = 0" "(m - n + n - 1) div n = 0" by auto
    with rhs show ?thesis by simp
  qed
qed

lemma length_chunks: "0 < n \<Longrightarrow> length (chunks n xs) = (length xs + n - 1) div n"
proof (induction n xs rule: chunks.induct)
  case (1 n xs)
  show ?case
  proof (cases "xs = []")
    case True
    then show ?thesis using 1 by (subst chunks.simps) simp
  next
    case False
    then have len: "0 < length xs" by simp
    have ih: "length (chunks n (drop n xs)) = (length (drop n xs) + n - 1) div n"
      using 1 False by simp
    have step: "Suc ((length xs - n + n - 1) div n) = (length xs + n - 1) div n"
      using ceil_step [OF 1(2) len] .
    show ?thesis
      using False 1 ih step by (subst chunks.simps) simp
  qed
qed

lemma chunks_nth_length:
  "0 < n \<Longrightarrow> j < length (chunks n xs) \<Longrightarrow>
   0 < length (chunks n xs ! j) \<and> length (chunks n xs ! j) \<le> n \<and>
   (Suc j < length (chunks n xs) \<longrightarrow> length (chunks n xs ! j) = n)"
proof (induction n xs arbitrary: j rule: chunks.induct)
  case (1 n xs)
  have ne: "xs \<noteq> []"
    using 1(3) by (subst (asm) chunks.simps) (auto split: if_splits)
  have unf: "chunks n xs = take n xs # chunks n (drop n xs)"
    using ne 1(2) by (subst chunks.simps) simp
  show ?case
  proof (cases j)
    case 0
    have first: "0 < length (take n xs)" "length (take n xs) \<le> n"
      using ne 1(2) by auto
    have "length (take n xs) = n" if "chunks n (drop n xs) \<noteq> []"
    proof -
      from that have "drop n xs \<noteq> []"
        by (subst (asm) chunks.simps) (auto split: if_splits)
      then show ?thesis by auto
    qed
    then show ?thesis using 0 unf first by auto
  next
    case (Suc k)
    have k: "k < length (chunks n (drop n xs))" using 1(3) unf Suc by simp
    have "0 < length (chunks n (drop n xs) ! k) \<and> length (chunks n (drop n xs) ! k) \<le> n \<and>
        (Suc k < length (chunks n (drop n xs)) \<longrightarrow> length (chunks n (drop n xs) ! k) = n)"
      using "1.IH" [of k] ne 1(2) k by simp
    then show ?thesis using unf Suc by simp
  qed
qed

section \<open>Retry with back-off\<close>

lemma retry_response_from_remote:
  "\<exists>h. fst (enrichBatchWithRetry rem b cfg a w) = rem h b"
proof (induction rem b cfg a w rule: enrichBatchWithRetry.induct)
  case (1 rem asins cfg attempt w)
  show ?case
  proof (cases "is_success (rem w asins) \<or> \<not> attempt < retryAttempts cfg")
    case True
    then have "fst (enrichBatchWithRetry rem asins cfg attempt w) = rem w asins"
      by (subst enrichBatchWithRetry.simps) (auto simp: getItemsBatch_def Let_def)
    then show ?thesis by blast
  next
    case False
    then have "enrichBatchWithRetry rem asins cfg attempt w =
        enrichBatchWithRetry rem asins cfg (attempt + 1)
          (delay Backoff (retryDelayMs cfg * 2 ^ nat (attempt - 1)) (w @ [Request asins]))"
      by (subst enrichBatchWithRetry.simps) (simp add: getItemsBatch_def Let_def)
    moreover have "\<exists>h. fst (enrichBatchWithRetry rem asins cfg (attempt + 1)
          (delay Backoff (retryDelayMs cfg * 2 ^ nat (attempt - 1)) (w @ [Request asins]))) = rem h asins"
      using False "1.IH" [of "getItemsBatch rem asins w"] by (simp add: getItemsBatch_def)
    ultimately show ?thesis by simp
  qed
qed

lemma retry_trace:
  "\<exists>t. snd (enrichBatchWithRetry rem b cfg a w) = w @ t \<and> batch_trace b t"
proof (induction rem b cfg a w rule: enrichBatchWithRetry.induct)
  case (1 rem asins cfg attempt w)
  show ?case
  proof (cases "is_success (rem w asins) \<or> \<not> attempt < retryAttempts cfg")
    case True
    then have "snd (enrichBatchWithRetry rem asins cfg attempt w) = w @ [Request asins]"
      by (subst enrichBatchWithRetry.simps) (auto simp: getItemsBatch_def Let_def)
    moreover have "batch_trace asins [Request asins]" by (simp add: batch_trace_def)
    ultimately show ?thesis by blast
  next
    case False
    let ?d = "retryDelayMs cfg * 2 ^ nat (attempt - 1)"
    have unf: "enrichBatchWithRetry rem asins cfg attempt w =
        enrichBatchWithRetry rem asins cfg (attempt + 1) (delay Backoff ?d (w @ [Request asins]))"
      using False by (subst enrichBatchWithRetry.simps) (simp add: getItemsBatch_def Let_def)
    obtain t where t: "snd (enrichBatchWithRetry rem asins cfg (attempt + 1)
          (delay Backoff ?d (w @ [Request asins]))) = delay Backoff ?d (w @ [Request asins]) @ t"
        "batch_trace asins t"
      using False "1.IH" [of "getItemsBatch rem asins w"] by (auto simp: getItemsBatch_def)
    have "snd (enrichBatchWithRetry rem asins cfg attempt w) =
        w @ (Request asins # Delay Backoff ?d # t)"
      using unf t(1) by (simp add: delay_def)
    moreover have "batch_trace asins (Request asins # Delay Backoff ?d # t)"
      using t(2) by (simp add: batch_trace_def)
    ultimately show ?thesis by blast
  qed
qed

lemma retry_exhausted_default:
  assumes "\<forall>h. \<not> is_success (rem h b)"
  shows "enrichBatchWithRetry rem b DEFAULT_CONFIG 1 w =
     (rem (w @ [Request b, Delay Backoff 1000, Request b, Delay Backoff 2000]) b,
      w @ [Request b, Delay Backoff 1000, Request b, Delay Backoff 2000, Request b])"
proof -
  have cfg: "retryAttempts DEFAULT_CONFIG = 3" "retryDelayMs DEFAULT_CONFIG = 1000"
    by (simp_all add: DEFAULT_CONFIG_def)
  let ?w1 = "w @ [Request b, Delay Backoff 1000]"
  let ?w2 = "w @ [Request b, Delay Backoff 1000, Request b, Delay Backoff 2000]"
  have third: "enrichBatchWithRetry rem b DEFAULT_CONFIG 3 ?w2 = (rem ?w2 b, ?w2 @ [Request b])"
    using assms cfg by (subst enrichBatchWithRetry.simps) (simp add: getItemsBatch_def Let_def)
  have second: "enrichBatchWithRetry rem b DEFAULT_CONFIG 2 ?w1 =
      enrichBatchWithRetry rem b DEFAULT_CONFIG 3 ?w2"
    using assms cfg
    by (subst enrichBatchWithRetry.simps) (simp add: getItemsBatch_def delay_def Let_def)
  have first: "enrichBatchWithRetry rem b DEFAULT_CONFIG 1 w =
      enrichBatchWithRetry rem b DEFAULT_CONFIG 2 ?w1"
    using assms cfg
    by (subst enrichBatchWithRetry.simps) (simp add: getItemsBatch_def delay_def Let_def)
  show ?thesis using first second third by simp
qed

lemma record_response_failure:
  "record_response cfg m b (Failure msg st) acc =
     acc\<lparr>failed := failed acc @ b,
         errors := errors acc @
           map (\<lambda>a. \<lparr>ed_asin = a, ed_code = ''BATCH_FAILED'', ed_message = msg\<rparr>) b\<rparr>"
  by (simp add: record_response_def)

text \<open>
  Claim C3, as the code has it. When every attempt for a batch fails, the default
  configuration issues exactly three requests, waits 1000 ms after the first and 2000 ms
  after the second, and waits no more: the last attempt is followed by no back-off, so no
  wait of 4000 ms occurs. The failure response then marks every identifier of the batch
  failed with the code \<open>BATCH_FAILED\<close> and adds no enriched product.
\<close>

theorem enrichBatchWithRetry_exhaustion_default:
  assumes "\<forall>h. \<not> is_success (rem h b)"
  shows "\<exists>msg status.
     enrichBatchWithRetry rem b DEFAULT_CONFIG 1 w =
       (Failure msg status,
        w @ [Request b, Delay Backoff 1000, Request b, Delay Backoff 2000, Request b]) \<and>
     failed (record_response DEFAULT_CONFIG m b (Failure msg status) acc) = failed acc @ b \<and>
     enriched (record_response DEFAULT_CONFIG m b (Failure msg status) acc) = enriched acc \<and>
     errors (record_response DEFAULT_CONFIG m b (Failure msg status) acc) =
       errors acc @ map (\<lambda>a. \<lparr>ed_asin = a, ed_code = ''BATCH_FAILED'', ed_message = msg\<rparr>) b"
proof -
  let ?h = "w @ [Request b, Delay Backoff 1000, Request b, Delay Backoff 2000]"
  obtain msg status where r: "rem ?h b = Failure msg status"
    using assms by (cases "rem ?h b") (auto dest: spec [of _ ?h])
  have "enrichBatchWithRetry rem b DEFAULT_CONFIG 1 w =
      (Failure msg status,
       w @ [Request b, Delay Backoff 1000, Request b, Delay Backoff 2000, Request b])"
    using retry_exhausted_default [where rem = rem and b = b and w = w, OF assms] r by simp
  then show ?thesis
    by (intro exI [of _ msg] exI [of _ status]) (simp add: record_response_failure)
qed

theorem enrichBatchWithRetry_exhaustion_default_witness:
  "(\<forall>h. \<not> is_success (timeout_remote h [JStr ''B000000001''])) \<and>
   enrichBatchWithRetry timeout_remote [JStr ''B000000001''] DEFAULT_CONFIG 1 [] =
     (Failure ''timeout'' None,
      [Request [JStr ''B000000001''], Delay Backoff 1000, Request [JStr ''B000000001''],
       Delay Backoff 2000, Request [JStr ''B000000001'']]) \<and>
   failed (record_response DEFAULT_CONFIG Map.empty [JStr ''B000000001'']
             (Failure ''timeout'' None) empty_accum) = [JStr ''B000000001'']"
proof -
  have h: "\<forall>h. \<not> is_success (timeout_remote h [JStr ''B000000001''])"
    by (simp add: timeout_remote_def)
  obtain msg status where
    run: "enrichBatchWithRetry timeout_remote [JStr ''B000000001''] DEFAULT_CONFIG 1 [] =
          (Failure msg status,
           [] @ [Request [JStr ''B000000001''], Delay Backoff 1000, Request [JStr ''B000000001''],
                 Delay Backoff 2000, Request [JStr ''B000000001'']])"
    and fl: "failed (record_response DEFAULT_CONFIG Map.empty [JStr ''B000000001'']
               (Failure msg status) empty_accum) = failed empty_accum @ [JStr ''B000000001'']"
    using enrichBatchWithRetry_exhaustion_default
      [where rem = timeout_remote and b = "[JStr ''B000000001'']" and w = "[]"
         and m = Map.empty and acc = empty_accum, OF h] by blast
  obtain h' where "fst (enrichBatchWithRetry timeout_remote [JStr ''B000000001'']
            DEFAULT_CONFIG 1 []) = timeout_remote h' [JStr ''B000000001'']"
    using retry_response_from_remote by blast
  with run have "msg = ''timeout''" "status = None" by (simp_all add: timeout_remote_def)
  with run fl h show ?thesis by (simp add: empty_accum_def)
qed

text \<open>
  The claim as stated promises waits of 1 s, 2 s and 4 s. A batch that fails on every
  attempt is tried three times, with the waits 1000 and 2000 only.
\<close>

theorem enrichBatchWithRetry_no_third_delay:
  "backoffDelays (snd (enrichBatchWithRetry timeout_remote
      [JStr ''B000000001''] DEFAULT_CONFIG 1 [])) = [1000, 2000] \<and>
   backoffDelays (snd (enrichBatchWithRetry timeout_remote
      [JStr ''B000000001''] DEFAULT_CONFIG 1 [])) \<noteq> [1000, 2000, 4000]"
proof -
  have "\<forall>h. \<not> is_success (timeout_remote h [JStr ''B000000001''])"
    by (simp add: timeout_remote_def)
  from retry_exhausted_default
    [where rem = timeout_remote and b = "[JStr ''B000000001'']" and w = "[]", OF this]
  show ?thesis by (simp add: backoffDelays_def)
qed

section \<open>Pacing between batches\<close>

lemma processBatches_trace:
  assumes "bn + length bs = n"
  shows "\<exists>ts. snd (processBatches rem cfg m n bs bn acc w) =
             w @ join [Delay InterBatch (requestDelayMs cfg)] ts \<and>
           list_all2 batch_trace bs ts"
  using assms
proof (induction bs arbitrary: bn acc w)
  case Nil
  then show ?case by simp
next
  case (Cons b bs)
  let ?rw = "enrichBatchWithRetry rem b cfg 1 w"
  let ?acc1 = "record_response cfg m b (fst ?rw) acc"
  let ?d = "Delay InterBatch (requestDelayMs cfg)"
  obtain t where t: "snd ?rw = w @ t" "batch_trace b t"
    using retry_trace by blast
  show ?case
  proof (cases bs)
    case Nil
    then have "\<not> Suc bn < n" using Cons.prems by simp
    then have "snd (processBatches rem cfg m n (b # bs) bn acc w) = w @ join [?d] [t]"
      using Nil t(1) by (simp add: Let_def)
    moreover have "list_all2 batch_trace (b # bs) [t]" using Nil t(2) by simp
    ultimately show ?thesis by blast
  next
    case (Cons b' bs')
    then have lt: "Suc bn < n" using Cons.prems by simp
    have nxt: "Suc bn + length bs = n" using Cons.prems by simp
    obtain ts where ts:
      "snd (processBatches rem cfg m n bs (Suc bn) ?acc1 (delay InterBatch (requestDelayMs cfg) (snd ?rw))) =
         delay InterBatch (requestDelayMs cfg) (snd ?rw) @ join [?d] ts"
      "list_all2 batch_trace bs ts"
      using Cons.IH [OF nxt] by blast
    from ts(2) Cons obtain t' ts' where ts': "ts = t' # ts'"
      by (cases ts) auto
    have "snd (processBatches rem cfg m n (b # bs) bn acc w) = w @ join [?d] (t # ts)"
      using lt ts(1) t(1) ts' by (simp add: Let_def delay_def)
    moreover have "list_all2 batch_trace (b # bs) (t # ts)" using t(2) ts(2) by simp
    ultimately show ?thesis by blast
  qed
qed

lemma batch_trace_no_interbatch: "batch_trace b t \<Longrightarrow> filter is_interbatch t = []"
proof -
  have "list_all (batch_event b) t \<Longrightarrow> filter is_interbatch t = []"
  proof (induction t)
    case Nil
    then show ?case by simp
  next
    case (Cons e t)
    then show ?case by (cases e) auto
  qed
  then show "batch_trace b t \<Longrightarrow> filter is_interbatch t = []"
    by (simp add: batch_trace_def)
qed

lemma interbatch_join:
  "list_all2 batch_trace bs ts \<Longrightarrow>
   filter is_interbatch (join [Delay InterBatch d] ts) =
     replicate (length ts - 1) (Delay InterBatch d)"
proof (induction ts arbitrary: bs rule: induct_list012)
  case 1
  then show ?case by simp
next
  case (2 x)
  then show ?case by (auto simp: list_all2_Cons2 batch_trace_no_interbatch)
next
  case (3 x y ys)
  from "3.prems" obtain b bs' where bs: "bs = b # bs'" "batch_trace b x"
    "list_all2 batch_trace bs' (y # ys)"
    by (auto simp: list_all2_Cons2)
  have "filter is_interbatch (join [Delay InterBatch d] (y # ys)) =
      replicate (length (y # ys) - 1) (Delay InterBatch d)"
    using "3.IH"(2) [OF bs(3)] .
  then show ?case using batch_trace_no_interbatch [OF bs(2)] by simp
qed

lemma last_join:
  "ts \<noteq> [] \<Longrightarrow> last ts \<noteq> [] \<Longrightarrow>
   join sep ts \<noteq> [] \<and> last (join sep ts) = last (last ts)"
proof (induction ts rule: induct_list012)
  case 1
  then show ?case by simp
next
  case (2 x)
  then show ?case by simp
next
  case (3 x y zs)
  then have "join sep (y # zs) \<noteq> [] \<and> last (join sep (y # zs)) = last (last (y # zs))"
    by simp
  then show ?case by simp
qed

lemma batch_traces_last:
  assumes "list_all2 batch_trace bs ts" "bs \<noteq> []"
  shows "last (w @ join sep ts) = Request (last bs)"
proof -
  have len: "length bs = length ts" using assms(1) by (rule list_all2_lengthD)
  then have ne: "ts \<noteq> []" using assms(2) by auto
  have "length bs - 1 < length bs" using assms(2) by simp
  then have "batch_trace (bs ! (length bs - 1)) (ts ! (length bs - 1))"
    by (rule list_all2_nthD [OF assms(1)])
  then have bt: "batch_trace (last bs) (last ts)"
    using assms(2) ne len by (simp add: last_conv_nth)
  then have "last ts \<noteq> []" "last (last ts) = Request (last bs)"
    by (simp_all add: batch_trace_def)
  then have "join sep ts \<noteq> []" "last (join sep ts) = Request (last bs)"
    using last_join [OF ne, of sep] by simp_all
  then show ?thesis by simp
qed

text \<open>
  Claim C4. With a positive batch size \<open>enrichAsins\<close> returns; its batch count is
  \<open>ceil(N / batchSize)\<close>; the events it adds to the world are the traces of its batches
  in order (requests for the batch and back-off waits only, ending with a request), with
  one inter-batch wait of \<open>requestDelayMs\<close> between consecutive traces and none
  elsewhere. So the inter-batch waits of a run are \<open>k - 1\<close> waits of \<open>requestDelayMs\<close>
  for \<open>k\<close> batches, and the last event of a run with at least one batch is a request of
  the last batch.
\<close>

theorem enrichAsins_interbatch_delays:
  assumes "0 < batchSize (fullConfig ucfg)"
  shows "\<exists>r w' batches ts.
     enrichAsins rem asins ucfg w = Some (r, w') \<and>
     splitBatches (batchSize (fullConfig ucfg)) 0 (map asin_of asins) [] = Some batches \<and>
     batchCount (res_metadata r) = length batches \<and>
     length batches =
       (length asins + nat (batchSize (fullConfig ucfg)) - 1) div nat (batchSize (fullConfig ucfg)) \<and>
     list_all2 batch_trace batches ts \<and>
     w' = w @ join [Delay InterBatch (requestDelayMs (fullConfig ucfg))] ts \<and>
     filter is_interbatch (drop (length w) w') =
       replicate (length batches - 1) (Delay InterBatch (requestDelayMs (fullConfig ucfg))) \<and>
     (batches \<noteq> [] \<longrightarrow> last w' = Request (last batches))"
proof -
  let ?cfg = "fullConfig ucfg"
  let ?ids = "map asin_of asins"
  define batches where "batches = chunks (nat (batchSize ?cfg)) ?ids"
  have b: "splitBatches (batchSize ?cfg) 0 ?ids [] = Some batches"
    "length batches = (length asins + nat (batchSize ?cfg) - 1) div nat (batchSize ?cfg)"
    using splitBatches_chunks [OF assms, of 0 ?ids "[]"] length_chunks [of "nat (batchSize ?cfg)" ?ids]
      assms by (simp_all add: batches_def)
  let ?aw = "processBatches rem ?cfg (build_asinMap asins) (length batches) batches 0 empty_accum w"
  obtain ts where ts:
    "snd ?aw = w @ join [Delay InterBatch (requestDelayMs ?cfg)] ts"
    "list_all2 batch_trace batches ts"
    using processBatches_trace [of 0 batches "length batches" rem ?cfg "build_asinMap asins" empty_accum w]
    by auto
  obtain r where r: "enrichAsins rem asins ucfg w = Some (r, snd ?aw)"
    "batchCount (res_metadata r) = length batches"
    using b(1) by (simp add: enrichAsins_def Let_def)
  have cnt: "filter is_interbatch (drop (length w) (snd ?aw)) =
      replicate (length batches - 1) (Delay InterBatch (requestDelayMs ?cfg))"
    using interbatch_join [OF ts(2)] ts(1) list_all2_lengthD [OF ts(2)] by simp
  have lst: "batches \<noteq> [] \<longrightarrow> last (snd ?aw) = Request (last batches)"
    using batch_traces_last [OF ts(2)] ts(1) by simp
  show ?thesis
    using r b ts cnt lst by (intro exI [of _ r] exI [of _ "snd ?aw"] exI [of _ batches] exI [of _ ts]) simp
qed

theorem enrichAsins_interbatch_delays_witness:
  "0 < batchSize (fullConfig no_overrides) \<and>
   (\<exists>r w'. enrichAsins timeout_remote twelve_asins no_overrides [] = Some (r, w') \<and>
      batchCount (res_metadata r) = 2 \<and>
      filter is_interbatch w' = [Delay InterBatch 1100])"
proof -
  have h: "0 < batchSize (fullConfig no_overrides)"
    by (simp add: fullConfig_def no_overrides_def DEFAULT_CONFIG_def)
  have bs: "batchSize (fullConfig no_overrides) = 10"
    by (simp add: fullConfig_def no_overrides_def DEFAULT_CONFIG_def)
  have cfg: "fullConfig no_overrides = DEFAULT_CONFIG"
    by (simp add: fullConfig_def no_overrides_def DEFAULT_CONFIG_def)
  have len: "length twelve_asins = 12" by (simp add: twelve_asins_def)
  obtain r w' batches ts where run:
    "enrichAsins timeout_remote twelve_asins no_overrides [] = Some (r, w')"
    "batchCount (res_metadata r) = length batches"
    "length batches =
       (length twelve_asins + nat (batchSize (fullConfig no_overrides)) - 1)
         div nat (batchSize (fullConfig no_overrides))"
    "list_all2 batch_trace batches ts"
    "w' = [] @ join [Delay InterBatch (requestDelayMs (fullConfig no_overrides))] ts"
    "filter is_interbatch (drop (length ([] :: event list)) w') =
       replicate (length batches - 1) (Delay InterBatch (requestDelayMs (fullConfig no_overrides)))"
    using enrichAsins_interbatch_delays
      [where rem = timeout_remote and asins = twelve_asins and ucfg = no_overrides and w = "[]", OF h]
    by blast
  have two: "length batches = 2" using run(3) len bs by simp
  have "requestDelayMs (fullConfig no_overrides) = 1100" by (simp add: cfg DEFAULT_CONFIG_def)
  then show ?thesis using h run(1,2,6) two by simp
qed

section \<open>The batches of a run\<close>

lemma batch_trace_tail:
  assumes "batch_trace b (e # t)" "t \<noteq> []"
  shows "batch_trace b t" "batch_event b e" "batch_event b (hd t)"
  using assms by (cases t; simp add: batch_trace_def)+

lemma batch_event_not_interbatch: "batch_event b e \<Longrightarrow> \<not> is_interbatch e"
  by (cases e) auto

lemma completed_single: "batch_trace b t \<Longrightarrow> completed_batches t = [b]"
proof (induction t)
  case Nil
  then show ?case by (simp add: batch_trace_def)
next
  case (Cons e t)
  show ?case
  proof (cases "t = []")
    case True
    then have "e = Request b" using Cons.prems by (simp add: batch_trace_def)
    then show ?thesis using True by simp
  next
    case False
    have t: "batch_trace b t" "batch_event b e" "batch_event b (hd t)"
      using batch_trace_tail [OF Cons.prems False] .
    have "\<not> is_interbatch (hd t)" using t(3) by (rule batch_event_not_interbatch)
    then show ?thesis using Cons.IH [OF t(1)] False by (cases e) simp_all
  qed
qed

lemma completed_before_delay:
  "batch_trace b t \<Longrightarrow>
   completed_batches (t @ Delay InterBatch d # rest) = b # completed_batches rest"
proof (induction t)
  case Nil
  then show ?case by (simp add: batch_trace_def)
next
  case (Cons e t)
  show ?case
  proof (cases "t = []")
    case True
    then have "e = Request b" using Cons.prems by (simp add: batch_trace_def)
    then show ?thesis using True by simp
  next
    case False
    have t: "batch_trace b t" "batch_event b e" "batch_event b (hd t)"
      using batch_trace_tail [OF Cons.prems False] .
    have "\<not> is_interbatch (hd t)" using t(3) by (rule batch_event_not_interbatch)
    then have "\<not> is_interbatch (hd (t @ Delay InterBatch d # rest))" using False by simp
    then show ?thesis using Cons.IH [OF t(1)] False by (cases e) simp_all
  qed
qed

lemma completed_join:
  "list_all2 batch_trace bs ts \<Longrightarrow> completed_batches (join [Delay InterBatch d] ts) = bs"
proof (induction ts arbitrary: bs rule: induct_list012)
  case 1
  then show ?case by simp
next
  case (2 x)
  then show ?case by (auto simp: list_all2_Cons2 completed_single)
next
  case (3 x y ys)
  from "3.prems" obtain b bs' where bs: "bs = b # bs'" "batch_trace b x"
    "list_all2 batch_trace bs' (y # ys)"
    by (auto simp: list_all2_Cons2)
  have "completed_batches (join [Delay InterBatch d] (y # ys)) = bs'"
    using "3.IH"(2) [OF bs(3)] .
  then show ?case using completed_before_delay [OF bs(2)] bs(1) by simp
qed

text \<open>
  Claim C2. With a positive batch size \<open>enrichAsins\<close> returns, and the batches it
  processed, read from its requests in order, are \<open>ceil(N / batchSize)\<close> many (written
  \<open>(N + b - 1) div b\<close>), which is also the batch count it reports; every batch but the
  last has exactly \<open>batchSize\<close> identifiers, the last has between 1 and \<open>batchSize\<close>;
  and the concatenation of the batches in processing order is the list of requested
  identifiers.
\<close>

theorem enrichAsins_batches_partition:
  assumes "0 < batchSize (fullConfig ucfg)"
  shows "\<exists>r w' batches.
     enrichAsins rem asins ucfg w = Some (r, w') \<and>
     batches = completed_batches (drop (length w) w') \<and>
     batchCount (res_metadata r) = length batches \<and>
     length batches =
       (length asins + nat (batchSize (fullConfig ucfg)) - 1) div nat (batchSize (fullConfig ucfg)) \<and>
     (\<forall>j < length batches.
        0 < length (batches ! j) \<and> length (batches ! j) \<le> nat (batchSize (fullConfig ucfg)) \<and>
        (Suc j < length batches \<longrightarrow> length (batches ! j) = nat (batchSize (fullConfig ucfg)))) \<and>
     concat batches = map asin_of asins"
proof -
  let ?cfg = "fullConfig ucfg"
  let ?ids = "map asin_of asins"
  have pos: "0 < nat (batchSize ?cfg)" using assms by simp
  define batches where "batches = chunks (nat (batchSize ?cfg)) ?ids"
  have b: "splitBatches (batchSize ?cfg) 0 ?ids [] = Some batches"
    using splitBatches_chunks [OF assms, of 0 ?ids "[]"] by (simp add: batches_def)
  have len: "length batches = (length asins + nat (batchSize ?cfg) - 1) div nat (batchSize ?cfg)"
    using length_chunks [OF pos, of ?ids] by (simp add: batches_def)
  have cc: "concat batches = ?ids"
    using concat_chunks [OF pos, of ?ids] by (simp add: batches_def)
  have sizes: "\<forall>j < length batches.
        0 < length (batches ! j) \<and> length (batches ! j) \<le> nat (batchSize ?cfg) \<and>
        (Suc j < length batches \<longrightarrow> length (batches ! j) = nat (batchSize ?cfg))"
    using chunks_nth_length [OF pos] by (auto simp: batches_def)
  let ?aw = "processBatches rem ?cfg (build_asinMap asins) (length batches) batches 0 empty_accum w"
  obtain ts where ts:
    "snd ?aw = w @ join [Delay InterBatch (requestDelayMs ?cfg)] ts"
    "list_all2 batch_trace batches ts"
    using processBatches_trace [of 0 batches "length batches" rem ?cfg "build_asinMap asins" empty_accum w]
    by auto
  have comp: "completed_batches (drop (length w) (snd ?aw)) = batches"
    using completed_join [OF ts(2)] ts(1) by simp
  obtain r where r: "enrichAsins rem asins ucfg w = Some (r, snd ?aw)"
    "batchCount (res_metadata r) = length batches"
    using b by (simp add: enrichAsins_def Let_def)
  show ?thesis
    using r comp len sizes cc
    by (intro exI [of _ r] exI [of _ "snd ?aw"] exI [of _ batches]) simp
qed

theorem enrichAsins_batches_partition_witness:
  "0 < batchSize (fullConfig no_overrides) \<and>
   (\<exists>r w'. enrichAsins timeout_remote twelve_asins no_overrides [] = Some (r, w') \<and>
      batchCount (res_metadata r) = 2 \<and>
      completed_batches w' =
        [map JStr [''B000000001'', ''B000000002'', ''B000000003'', ''B000000004'', ''B000000005'',
                   ''B000000006'', ''B000000007'', ''B000000008'', ''B000000009'', ''B000000010''],
         map JStr [''B000000011'', ''B000000012'']])"
proof -
  have h: "0 < batchSize (fullConfig no_overrides)"
    by (simp add: fullConfig_def no_overrides_def DEFAULT_CONFIG_def)
  have bs: "nat (batchSize (fullConfig no_overrides)) = 10"
    by (simp add: fullConfig_def no_overrides_def DEFAULT_CONFIG_def)
  have len: "length twelve_asins = 12" by (simp add: twelve_asins_def)
  obtain r w' batches where run:
    "enrichAsins timeout_remote twelve_asins no_overrides [] = Some (r, w')"
    "batches = completed_batches (drop (length ([] :: event list)) w')"
    "batchCount (res_metadata r) = length batches"
    "length batches = (length twelve_asins + nat (batchSize (fullConfig no_overrides)) - 1)
        div nat (batchSize (fullConfig no_overrides))"
    "\<forall>j < length batches.
        0 < length (batches ! j) \<and>
        length (batches ! j) \<le> nat (batchSize (fullConfig no_overrides)) \<and>
        (Suc j < length batches \<longrightarrow> length (batches ! j) = nat (batchSize (fullConfig no_overrides)))"
    "concat batches = map asin_of twelve_asins"
    using enrichAsins_batches_partition
      [where rem = timeout_remote and asins = twelve_asins and ucfg = no_overrides and w = "[]", OF h]
    by blast
  have two: "length batches = 2" using run(4) len bs by simp
  then obtain b0 b1 where b01: "batches = [b0, b1]"
    by (cases batches; cases "tl batches") auto
  have l0: "length b0 = 10" using run(5) two b01 bs by (auto dest: spec [of _ 0])
  have cat: "b0 @ b1 = map asin_of twelve_asins" using run(6) b01 by simp
  have "b0 = take 10 (map asin_of twelve_asins)" "b1 = drop 10 (map asin_of twelve_asins)"
    using cat l0 by (simp_all add: append_eq_conv_conj)
  then have "batches =
        [map JStr [''B000000001'', ''B000000002'', ''B000000003'', ''B000000004'', ''B000000005'',
                   ''B000000006'', ''B000000007'', ''B000000008'', ''B000000009'', ''B000000010''],
         map JStr [''B000000011'', ''B000000012'']]"
    using b01 by (simp add: twelve_asins_def)
  then show ?thesis using h run(1,2,3) two by simp
qed

section \<open>Accounting of enriched and failed identifiers\<close>

lemma extractProductData_asin: "getp (extractProductData it atag) ''asin'' = JStr (ASIN it)"
  by (simp add: extractProductData_def getp_def Let_def map_add_def split: prod.splits)

lemma merge_original_asin:
  "getp (merge_original m (extractProductData it atag)) ''asin'' = JStr (ASIN it)"
proof -
  have "extractProductData it atag ''asin'' = Some (JStr (ASIN it))"
    using extractProductData_asin [of it atag]
    by (simp add: extractProductData_def getp_def Let_def map_add_def split: prod.splits)
  then show ?thesis
    by (simp add: merge_original_def getp_def map_add_def split: option.splits)
qed

lemma record_response_accounting:
  "mset (enriched_asins (enriched (record_response cfg m b r acc))) +
     mset (failed (record_response cfg m b r acc)) =
   mset (enriched_asins (enriched acc)) + mset (failed acc) +
     (if is_success r then mset (answered r) else mset b)"
proof (cases r)
  case (Success d)
  have "enriched_asins (map (\<lambda>it. merge_original m (extractProductData it (associateTag cfg))) xs) =
      map (\<lambda>it. JStr (ASIN it)) xs" for xs
    by (simp add: enriched_asins_def merge_original_asin)
  then show ?thesis
    using Success
    by (simp add: record_response_def answered_def Let_def enriched_asins_def merge_original_asin
        o_def)
next
  case (Failure msg st)
  then show ?thesis by (simp add: record_response_def)
qed

lemma processBatches_accounting:
  assumes "\<forall>h b. complete_response b (rem h b)"
  shows "mset (enriched_asins (enriched (fst (processBatches rem cfg m n bs bn acc w)))) +
           mset (failed (fst (processBatches rem cfg m n bs bn acc w))) =
         mset (enriched_asins (enriched acc)) + mset (failed acc) + mset (concat bs)"
proof (induction bs arbitrary: bn acc w)
  case Nil
  then show ?case by simp
next
  case (Cons b bs)
  let ?rw = "enrichBatchWithRetry rem b cfg 1 w"
  let ?acc1 = "record_response cfg m b (fst ?rw) acc"
  obtain h where h: "fst ?rw = rem h b" using retry_response_from_remote by blast
  then have "complete_response b (fst ?rw)" using assms by simp
  then have "(if is_success (fst ?rw) then mset (answered (fst ?rw)) else mset b) = mset b"
    by (simp add: complete_response_def)
  then have step: "mset (enriched_asins (enriched ?acc1)) + mset (failed ?acc1) =
      mset (enriched_asins (enriched acc)) + mset (failed acc) + mset b"
    using record_response_accounting [of cfg m b "fst ?rw" acc] by simp
  show ?case
    using Cons.IH [of "Suc bn" ?acc1] step by (simp add: Let_def)
qed

text \<open>
  Claim C1, as the code has it. With a positive batch size \<open>enrichAsins\<close> returns.
  When every successful batch response names each identifier of its batch exactly once,
  as an item or as an item error, then for any mix of successes, per-item rejections and
  failed batches the enriched products and the failed list together hold each requested
  identifier as often as it was requested, so an identifier requested once is in exactly
  one of the two lists, and \<open>enrichedCount + failedCount = totalAsins\<close>. (An identifier
  that a successful response leaves out is recorded in neither list.)
\<close>

theorem enrichAsins_accounting:
  assumes "0 < batchSize (fullConfig ucfg)"
    and "\<forall>h b. complete_response b (rem h b)"
  shows "\<exists>r w'.
     enrichAsins rem asins ucfg w = Some (r, w') \<and>
     mset (enriched_asins (res_products r) @ res_failed r) = mset (map asin_of asins) \<and>
     enrichedCount (res_metadata r) + failedCount (res_metadata r) = totalAsins (res_metadata r) \<and>
     totalAsins (res_metadata r) = length asins \<and>
     (distinct (map asin_of asins) \<longrightarrow>
        distinct (enriched_asins (res_products r) @ res_failed r) \<and>
        (\<forall>a \<in> set (map asin_of asins).
           (a \<in> set (enriched_asins (res_products r))) \<noteq> (a \<in> set (res_failed r))))"
proof -
  let ?cfg = "fullConfig ucfg"
  let ?ids = "map asin_of asins"
  define batches where "batches = chunks (nat (batchSize ?cfg)) ?ids"
  have b: "splitBatches (batchSize ?cfg) 0 ?ids [] = Some batches"
    using splitBatches_chunks [OF assms(1), of 0 ?ids "[]"] by (simp add: batches_def)
  have cc: "concat batches = ?ids"
    using concat_chunks [of "nat (batchSize ?cfg)" ?ids] assms(1) by (simp add: batches_def)
  let ?aw = "processBatches rem ?cfg (build_asinMap asins) (length batches) batches 0 empty_accum w"
  let ?acc = "fst ?aw"
  define r where "r = \<lparr>res_products = enriched ?acc,
      res_metadata =
        \<lparr>totalAsins = length ?ids,
         enrichedCount = length (enriched ?acc),
         failedCount = length (failed ?acc),
         successRate = (if length ?ids > 0
                        then of_nat (length (enriched ?acc)) / of_nat (length ?ids) else 0),
         batchCount = length batches\<rparr>,
      res_failed = failed ?acc,
      res_errors = (if length (errors ?acc) > 0 then Some (errors ?acc) else None)\<rparr>"
  have run: "enrichAsins rem asins ucfg w = Some (r, snd ?aw)"
    using b by (simp add: enrichAsins_def Let_def r_def)
  have "mset (enriched_asins (enriched ?acc)) + mset (failed ?acc) = mset ?ids"
    using processBatches_accounting [OF assms(2), of ?cfg "build_asinMap asins" "length batches"
        batches 0 empty_accum w] cc
    by (simp add: empty_accum_def enriched_asins_def)
  then have ms: "mset (enriched_asins (res_products r) @ res_failed r) = mset ?ids"
    by (simp add: r_def)
  then have "size (mset (enriched_asins (res_products r) @ res_failed r)) = size (mset ?ids)"
    by simp
  then have cnt: "enrichedCount (res_metadata r) + failedCount (res_metadata r) =
      totalAsins (res_metadata r)"
    by (simp add: r_def enriched_asins_def)
  have tot: "totalAsins (res_metadata r) = length asins" by (simp add: r_def)
  have dis: "distinct (enriched_asins (res_products r) @ res_failed r) \<and>
        (\<forall>a \<in> set ?ids.
           (a \<in> set (enriched_asins (res_products r))) \<noteq> (a \<in> set (res_failed r)))"
    if d: "distinct ?ids"
  proof -
    have dd: "distinct (enriched_asins (res_products r) @ res_failed r)"
      using ms d by (metis mset_eq_imp_distinct_iff)
    have "set (enriched_asins (res_products r) @ res_failed r) = set ?ids"
      using ms by (rule mset_eq_setD)
    then show ?thesis using dd by auto
  qed
  show ?thesis
    using run ms cnt tot dis by (intro exI [of _ r] exI [of _ "snd ?aw"]) blast
qed


lemma mixed_remote_complete: "complete_response b (mixed_remote h b)"
proof -
  have "mset (map (\<lambda>it. JStr (ASIN it)) (concat (map item_of b)) @
              map err_ASIN (map rejection (filter (\<lambda>a. \<not> accessible a) b))) = mset b"
  proof (induction b)
    case Nil
    then show ?case by simp
  next
    case (Cons a b)
    then show ?case
      by (cases a) (auto simp: bare_item_def rejection_def)
  qed
  then show ?thesis
    by (simp add: complete_response_def mixed_remote_def answered_def)
qed

theorem enrichAsins_accounting_witness:
  "0 < batchSize (fullConfig no_overrides) \<and>
   (\<forall>h b. complete_response b (mixed_remote h b)) \<and>
   (\<exists>r w'. enrichAsins mixed_remote twelve_asins no_overrides [] = Some (r, w') \<and>
      mset (enriched_asins (res_products r) @ res_failed r) = mset (map asin_of twelve_asins) \<and>
      enrichedCount (res_metadata r) + failedCount (res_metadata r) = 12)"
proof -
  have h1: "0 < batchSize (fullConfig no_overrides)"
    by (simp add: fullConfig_def no_overrides_def DEFAULT_CONFIG_def)
  have h2: "\<forall>h b. complete_response b (mixed_remote h b)"
    by (simp add: mixed_remote_complete)
  have len: "length twelve_asins = 12" by (simp add: twelve_asins_def)
  obtain r w' where
    "enrichAsins mixed_remote twelve_asins no_overrides [] = Some (r, w')"
    "mset (enriched_asins (res_products r) @ res_failed r) = mset (map asin_of twelve_asins)"
    "enrichedCount (res_metadata r) + failedCount (res_metadata r) = totalAsins (res_metadata r)"
    "totalAsins (res_metadata r) = length twelve_asins"
    using enrichAsins_accounting
      [where rem = mixed_remote and asins = twelve_asins and ucfg = no_overrides and w = "[]",
        OF h1 h2]
    by blast
  then show ?thesis using h1 h2 len by auto
qed

text \<open>
  The claim as stated fails when a successful response leaves an identifier out: the
  identifier is then in neither list, no error is recorded for it, and the counts do not
  add up to the number requested.
\<close>

lemma silent_run:
  "enrichBatchWithRetry silent_remote b cfg 1 w =
     (Success \<lparr>ItemsResult_Items = None, Errors = None\<rparr>, w @ [Request b])"
  by (subst enrichBatchWithRetry.simps) (simp add: getItemsBatch_def silent_remote_def Let_def)

theorem enrichAsins_unanswered_identifier:
  "run_counts (enrichAsins silent_remote [AsinString ''B000000001''] no_overrides []) =
     Some (1, 0, 0) \<and>
   run_products (enrichAsins silent_remote [AsinString ''B000000001''] no_overrides []) = Some [] \<and>
   run_failed (enrichAsins silent_remote [AsinString ''B000000001''] no_overrides []) = Some [] \<and>
   run_errors (enrichAsins silent_remote [AsinString ''B000000001''] no_overrides []) = Some None"
proof -
  have bs: "batchSize (fullConfig no_overrides) = 10"
    by (simp add: fullConfig_def no_overrides_def DEFAULT_CONFIG_def)
  have "chunks 10 [JStr ''B000000001''] = [[JStr ''B000000001'']]"
    by (simp add: chunks.simps)
  then have split: "splitBatches 10 0 [JStr ''B000000001''] [] = Some [[JStr ''B000000001'']]"
    using splitBatches_chunks [of 10 0 "[JStr ''B000000001'']" "[]"] by simp
  have "enrichAsins silent_remote [AsinString ''B000000001''] no_overrides [] =
      Some (\<lparr>res_products = [],
              res_metadata = \<lparr>totalAsins = 1, enrichedCount = 0, failedCount = 0,
                successRate = 0, batchCount = 1\<rparr>,
              res_failed = [], res_errors = None\<rparr>,
            [Request [JStr ''B000000001'']])"
    using split bs
    by (simp add: enrichAsins_def Let_def silent_run record_response_def empty_accum_def)
  then show ?thesis
    by (simp add: run_counts_def run_products_def run_failed_def run_errors_def enriched_asins_def)
qed

section \<open>Sale fields\<close>

lemma sale_information_cases:
  "sale_information sb price =
     (case (sb, price) of
        (Some s, JNum p) \<Rightarrow>
          (case Amount s of
             Some a \<Rightarrow>
               if a \<noteq> 0 \<and> p \<noteq> 0
               then (JNum a, JNum (double_sub a p),
                     JNum (of_int (round (double_mul (double_div (double_sub a p) a) 100))),
                     double_sub a p > 0)
               else (JNull, JNull, JNull, False)
           | None \<Rightarrow> (JNull, JNull, JNull, False))
      | _ \<Rightarrow> (JNull, JNull, JNull, False))"
  by (simp add: sale_information_def Let_def split: option.splits jsval.splits)

lemma extract_sale_information:
  "sale_information
     (case first_listing it of None \<Rightarrow> None | Some l \<Rightarrow> SavingBasis l)
     (case (case first_listing it of None \<Rightarrow> None | Some l \<Rightarrow> Price l) of
        None \<Rightarrow> JNull | Some m \<Rightarrow> of_num (Amount m)) =
   (case (savingBasis_amount it, price_amount it) of
      (Some a, Some p) \<Rightarrow>
        if a \<noteq> 0 \<and> p \<noteq> 0
        then (JNum a, JNum (double_sub a p),
              JNum (of_int (round (double_mul (double_div (double_sub a p) a) 100))), p < a)
        else (JNull, JNull, JNull, False)
    | _ \<Rightarrow> (JNull, JNull, JNull, False))"
  by (simp add: sale_information_cases savingBasis_amount_def price_amount_def of_num_def
      double_sub_pos split: option.splits)

lemma map_add_if_apply:
  "(m ++ (if c then n else Map.empty)) k = (if c then (case n k of None \<Rightarrow> m k | Some v \<Rightarrow> Some v) else m k)"
  by (simp add: map_add_def)

lemma extractProductData_sale_key:
  assumes "k \<in> set sale_field_names"
  shows "extractProductData it atag k =
     (case (savingBasis_amount it, price_amount it) of
        (Some a, Some p) \<Rightarrow>
          if a \<noteq> 0 \<and> p \<noteq> 0 \<and> p < a
          then Some (if k = ''is_on_sale'' then JBool True
                     else if k = ''original_price'' then JNum a
                     else if k = ''discount_amount'' then JNum (double_sub a p)
                     else JNum (of_int (round (double_mul (double_div (double_sub a p) a) 100))))
          else None
      | _ \<Rightarrow> None)"
proof -
  obtain oP dA dP sale where si: "sale_information
     (case first_listing it of None \<Rightarrow> None | Some l \<Rightarrow> SavingBasis l)
     (case (case first_listing it of None \<Rightarrow> None | Some l \<Rightarrow> Price l) of
        None \<Rightarrow> JNull | Some m \<Rightarrow> of_num (Amount m)) = (oP, dA, dP, sale)"
    by (metis prod_cases4)
  have out: "extractProductData it atag k =
      (if sale then
         (if k = ''is_on_sale'' then Some (JBool True)
          else if k = ''original_price'' then Some oP
          else if k = ''discount_amount'' then Some dA
          else Some dP)
       else None)"
    using assms
    unfolding extractProductData_def Let_def si prod.case map_add_if_apply sale_field_names_def
    by (cases "k = ''is_on_sale''"; cases "k = ''original_price''"; cases "k = ''discount_amount''")
      simp_all
  show ?thesis
  proof (cases "savingBasis_amount it")
    case None
    then show ?thesis using si out by (simp add: extract_sale_information)
  next
    case (Some a)
    show ?thesis
    proof (cases "price_amount it")
      case None
      then show ?thesis using Some si out by (simp add: extract_sale_information)
    next
      case (Some p)
      with \<open>savingBasis_amount it = Some a\<close> si out show ?thesis
        by (auto simp: extract_sale_information split: if_splits)
    qed
  qed
qed


lemma sale_keys:
  "''is_on_sale'' \<in> set sale_field_names" "''original_price'' \<in> set sale_field_names"
  "''discount_amount'' \<in> set sale_field_names" "''discount_percentage'' \<in> set sale_field_names"
  by (simp_all add: sale_field_names_def)

lemma extractProductData_sale_key_present:
  assumes "k \<in> set sale_field_names"
  shows "(extractProductData it atag k \<noteq> None) \<longleftrightarrow>
      (\<exists>a p. savingBasis_amount it = Some a \<and> price_amount it = Some p \<and>
             a \<noteq> 0 \<and> p \<noteq> 0 \<and> p < a)"
proof (cases "savingBasis_amount it")
  case None
  then show ?thesis by (simp add: extractProductData_sale_key [OF assms])
next
  case (Some a)
  show ?thesis
  proof (cases "price_amount it")
    case None
    then show ?thesis using Some by (simp add: extractProductData_sale_key [OF assms])
  next
    case (Some p)
    with \<open>savingBasis_amount it = Some a\<close> show ?thesis
      by (simp add: extractProductData_sale_key [OF assms])
  qed
qed

lemma extractProductData_all_or_none:
  "(all_sale_fields (extractProductData it atag) \<longleftrightarrow>
      (\<exists>a p. savingBasis_amount it = Some a \<and> price_amount it = Some p \<and>
             a \<noteq> 0 \<and> p \<noteq> 0 \<and> p < a)) \<and>
   (no_sale_fields (extractProductData it atag) \<longleftrightarrow>
      \<not> (\<exists>a p. savingBasis_amount it = Some a \<and> price_amount it = Some p \<and>
             a \<noteq> 0 \<and> p \<noteq> 0 \<and> p < a))"
proof -
  let ?P = "\<exists>a p. savingBasis_amount it = Some a \<and> price_amount it = Some p \<and>
             a \<noteq> 0 \<and> p \<noteq> 0 \<and> p < a"
  have each: "\<forall>k \<in> set sale_field_names. (extractProductData it atag k \<noteq> None) = ?P"
    using extractProductData_sale_key_present by blast
  have ne: "''is_on_sale'' \<in> set sale_field_names" by (simp add: sale_field_names_def)
  have "all_sale_fields (extractProductData it atag) = ?P"
    unfolding all_sale_fields_def has_field_def list_all_iff using each ne by blast
  moreover have "no_sale_fields (extractProductData it atag) = (\<not> ?P)"
    unfolding no_sale_fields_def list_all_iff using each ne by blast
  ultimately show ?thesis by blast
qed

text \<open>
  Claim C5, as the code has it. For an item whose current price amount and saving-basis
  amount are not zero, \<open>extractProductData\<close> attaches the four sale fields if and only
  if the first listing has a saving-basis amount strictly greater than its price amount.
  Then \<open>is_on_sale\<close> is true, \<open>original_price\<close> is the saving-basis amount,
  \<open>discount_amount\<close> is the difference and \<open>discount_percentage\<close> is
  \<open>Math.round\<close> of the quotient times 100, each operation rounded to a double.
  Otherwise none of the four fields is present.
\<close>

theorem extractProductData_sale_derivation:
  assumes "price_amount it \<noteq> Some 0" and "savingBasis_amount it \<noteq> Some 0"
  shows "(all_sale_fields (extractProductData it atag) \<longleftrightarrow>
      (\<exists>a p. savingBasis_amount it = Some a \<and> price_amount it = Some p \<and> p < a)) \<and>
   (\<forall>a p. savingBasis_amount it = Some a \<and> price_amount it = Some p \<and> p < a \<longrightarrow>
      extractProductData it atag ''is_on_sale'' = Some (JBool True) \<and>
      extractProductData it atag ''original_price'' = Some (JNum a) \<and>
      extractProductData it atag ''discount_amount'' = Some (JNum (double_sub a p)) \<and>
      extractProductData it atag ''discount_percentage'' =
        Some (JNum (of_int (round (double_mul (double_div (double_sub a p) a) 100))))) \<and>
   (\<not> all_sale_fields (extractProductData it atag) \<longrightarrow>
      no_sale_fields (extractProductData it atag))"
proof (intro conjI allI impI)
  have "(\<exists>a p. savingBasis_amount it = Some a \<and> price_amount it = Some p \<and>
             a \<noteq> 0 \<and> p \<noteq> 0 \<and> p < a) =
        (\<exists>a p. savingBasis_amount it = Some a \<and> price_amount it = Some p \<and> p < a)"
    using assms by auto
  then show "all_sale_fields (extractProductData it atag) \<longleftrightarrow>
      (\<exists>a p. savingBasis_amount it = Some a \<and> price_amount it = Some p \<and> p < a)"
    using extractProductData_all_or_none [of it atag] by simp
next
  assume "\<not> all_sale_fields (extractProductData it atag)"
  then show "no_sale_fields (extractProductData it atag)"
    using extractProductData_all_or_none [of it atag] by blast
next
  fix a p
  assume h0: "savingBasis_amount it = Some a \<and> price_amount it = Some p \<and> p < a"
  then have "p \<noteq> 0" "a \<noteq> 0" using assms by auto
  then have h: "savingBasis_amount it = Some a \<and> price_amount it = Some p \<and>
          a \<noteq> 0 \<and> p \<noteq> 0 \<and> p < a"
    using h0 by simp
  show "extractProductData it atag ''is_on_sale'' = Some (JBool True)"
    using h by (simp add: extractProductData_sale_key [OF sale_keys(1)])
  show "extractProductData it atag ''original_price'' = Some (JNum a)"
    using h by (simp add: extractProductData_sale_key [OF sale_keys(2)])
  show "extractProductData it atag ''discount_amount'' = Some (JNum (double_sub a p))"
    using h by (simp add: extractProductData_sale_key [OF sale_keys(3)])
  show "extractProductData it atag ''discount_percentage'' =
        Some (JNum (of_int (round (double_mul (double_div (double_sub a p) a) 100))))"
    using h by (simp add: extractProductData_sale_key [OF sale_keys(4)])
qed

lemma priced_item_amounts:
  "savingBasis_amount (priced_item p l) = Some l" "price_amount (priced_item p l) = Some p"
  by (simp_all add: savingBasis_amount_def price_amount_def first_listing_def priced_item_def)

lemma scenario_doubles:
  "to_double (2999 / 100) = d29_99" "to_double (4999 / 100) = d49_99"
  by code_simp+

lemma scenario_amount: "double_sub d49_99 d29_99 = 20 + 1 / 2 ^ 48"
  by code_simp

lemma scenario_percentage:
  "round (double_mul (double_div (double_sub d49_99 d29_99) d49_99) 100) = 40"
  by code_simp

lemma scenario_percentage_flat:
  "round (double_mul (double_div (20 + 1 / 2 ^ 48) d49_99) 100) = 40"
  using scenario_percentage by (simp only: scenario_amount)

lemma scenario_order: "d29_99 \<noteq> 0" "d49_99 \<noteq> 0" "d29_99 < d49_99"
  by (simp_all add: d29_99_def d49_99_def)

theorem extractProductData_sale_derivation_witness:
  "price_amount scenario_item \<noteq> Some 0 \<and>
   savingBasis_amount scenario_item \<noteq> Some 0 \<and>
   price_amount scenario_item = Some (to_double (2999 / 100)) \<and>
   savingBasis_amount scenario_item = Some (to_double (4999 / 100)) \<and>
   all_sale_fields (extractProductData scenario_item ''tag-20'') \<and>
   extractProductData scenario_item ''tag-20'' ''is_on_sale'' = Some (JBool True) \<and>
   extractProductData scenario_item ''tag-20'' ''original_price'' = Some (JNum d49_99) \<and>
   extractProductData scenario_item ''tag-20'' ''discount_amount'' =
     Some (JNum (20 + 1 / 2 ^ 48)) \<and>
   extractProductData scenario_item ''tag-20'' ''discount_percentage'' = Some (JNum 40)"
proof -
  have am: "savingBasis_amount scenario_item = Some d49_99"
    "price_amount scenario_item = Some d29_99"
    by (simp_all add: scenario_item_def priced_item_amounts)
  have h: "price_amount scenario_item \<noteq> Some 0" "savingBasis_amount scenario_item \<noteq> Some 0"
    using am scenario_order by simp_all
  have c: "savingBasis_amount scenario_item = Some d49_99 \<and>
      price_amount scenario_item = Some d29_99 \<and> d29_99 < d49_99"
    using am scenario_order by simp
  note sd = extractProductData_sale_derivation [OF h, of "''tag-20''"]
  have "extractProductData scenario_item ''tag-20'' ''is_on_sale'' = Some (JBool True) \<and>
      extractProductData scenario_item ''tag-20'' ''original_price'' = Some (JNum d49_99) \<and>
      extractProductData scenario_item ''tag-20'' ''discount_amount'' =
        Some (JNum (double_sub d49_99 d29_99)) \<and>
      extractProductData scenario_item ''tag-20'' ''discount_percentage'' =
        Some (JNum (of_int (round (double_mul (double_div (double_sub d49_99 d29_99) d49_99) 100))))"
    using sd c by blast
  then have v: "extractProductData scenario_item ''tag-20'' ''is_on_sale'' = Some (JBool True) \<and>
      extractProductData scenario_item ''tag-20'' ''original_price'' = Some (JNum d49_99) \<and>
      extractProductData scenario_item ''tag-20'' ''discount_amount'' =
        Some (JNum (20 + 1 / 2 ^ 48)) \<and>
      extractProductData scenario_item ''tag-20'' ''discount_percentage'' = Some (JNum 40)"
    by (simp only: scenario_amount scenario_percentage_flat of_int_numeral)
  moreover have "all_sale_fields (extractProductData scenario_item ''tag-20'')"
    using sd c by blast
  ultimately show ?thesis
    using h am by (simp only: scenario_doubles simp_thms)
qed

text \<open>
  The claim as stated gives exact values. In double arithmetic the difference of 49.99
  and 29.99 is not 20, and the percentage for the price 8.5 and the list price 20 is 57,
  where the exact quotient 57.5 rounds to 58.
\<close>

lemma half_price_percentage:
  "round (double_mul (double_div (double_sub 20 (17 / 2)) 20) 100) = 57"
  by code_simp

lemma exact_percentage: "round ((20 - 17 / 2) / 20 * 100 :: rat) = 58"
  by code_simp

theorem extractProductData_double_rounding:
  "extractProductData scenario_item ''tag-20'' ''discount_amount'' =
     Some (JNum (20 + 1 / 2 ^ 48)) \<and>
   extractProductData scenario_item ''tag-20'' ''discount_amount'' \<noteq> Some (JNum 20) \<and>
   extractProductData (priced_item (17 / 2) 20) ''tag-20'' ''discount_percentage'' =
     Some (JNum 57) \<and>
   round ((20 - 17 / 2) / 20 * 100 :: rat) = 58"
proof -
  have "extractProductData scenario_item ''tag-20'' ''discount_amount'' =
      Some (JNum (double_sub d49_99 d29_99))"
    using scenario_order
    by (simp add: extractProductData_sale_key [OF sale_keys(3)] scenario_item_def
        priced_item_amounts)
  then have a: "extractProductData scenario_item ''tag-20'' ''discount_amount'' =
      Some (JNum (20 + 1 / 2 ^ 48))"
    by (simp only: scenario_amount)
  have "extractProductData (priced_item (17 / 2) 20) ''tag-20'' ''discount_percentage'' =
      Some (JNum (of_int (round (double_mul (double_div (double_sub 20 (17 / 2)) 20) 100))))"
    by (simp add: extractProductData_sale_key [OF sale_keys(4)] priced_item_amounts)
  then have b: "extractProductData (priced_item (17 / 2) 20) ''tag-20'' ''discount_percentage'' =
      Some (JNum 57)"
    by (simp only: half_price_percentage of_int_numeral)
  have ne: "(20 + 1 / 2 ^ 48 :: rat) \<noteq> 20" by simp
  show ?thesis using a b ne exact_percentage by simp
qed

text \<open>
  The guard \<^verbatim>\<open>savingBasis && savingBasis.Amount && price\<close> tests the two amounts
  for truthiness. At a current price of zero it fails, so no sale field is attached
  although the list price is greater.
\<close>

lemma extractProductData_zero_price:
  "savingBasis_amount (priced_item 0 10) = Some 10 \<and>
   price_amount (priced_item 0 10) = Some 0 \<and>
   (0 :: rat) < 10 \<and>
   no_sale_fields (extractProductData (priced_item 0 10) ''tag-20'')"
proof -
  have "\<not> (\<exists>a p. savingBasis_amount (priced_item 0 10) = Some a \<and>
      price_amount (priced_item 0 10) = Some p \<and> a \<noteq> 0 \<and> p \<noteq> 0 \<and> p < a)"
    by (simp add: priced_item_amounts)
  then have "no_sale_fields (extractProductData (priced_item 0 10) ''tag-20'')"
    using extractProductData_all_or_none [of "priced_item 0 10" "''tag-20''"] by blast
  then show ?thesis by (simp add: priced_item_amounts)
qed

section \<open>Sale fields are all present or all absent\<close>

lemma spread_if_apply: "spread_if c m k = (if c then m k else None)"
  by (simp add: spread_if_def)

lemma formatProduct_sale_key:
  assumes "k \<in> set sale_field_names"
  shows "formatProduct numstr product atag k =
     (if truthy (getp product ''is_on_sale'') then Some (getp product k) else None)"
proof -
  have k: "k = ''is_on_sale'' \<or> k = ''original_price'' \<or> k = ''discount_amount'' \<or>
      k = ''discount_percentage''"
    using assms by (simp add: sale_field_names_def)
  show ?thesis
    unfolding formatProduct_def
    using k by (elim disjE) (simp_all add: map_add_def spread_if_apply)
qed

lemma extractProductData_defined:
  "defined_sale_fields (extractProductData it atag) \<or> no_sale_fields (extractProductData it atag)"
proof (cases "\<exists>a p. savingBasis_amount it = Some a \<and> price_amount it = Some p \<and>
             a \<noteq> 0 \<and> p \<noteq> 0 \<and> p < a")
  case True
  then obtain a p where ap: "savingBasis_amount it = Some a" "price_amount it = Some p"
    "a \<noteq> 0" "p \<noteq> 0" "p < a"
    by blast
  have "\<forall>k \<in> set sale_field_names.
      (case extractProductData it atag k of None \<Rightarrow> False | Some v \<Rightarrow> v \<noteq> JUndefined)"
    using ap by (simp add: extractProductData_sale_key)
  then show ?thesis by (simp add: defined_sale_fields_def list_all_iff)
next
  case False
  then show ?thesis using extractProductData_all_or_none [of it atag] by blast
qed

lemma formatProduct_extracted:
  "defined_sale_fields (formatProduct numstr (extractProductData it atag) atag') \<or>
   no_sale_fields (formatProduct numstr (extractProductData it atag) atag')"
proof -
  let ?src = "extractProductData it atag"
  from extractProductData_defined [of it atag] show ?thesis
  proof
    assume d: "defined_sale_fields ?src"
    then have each: "\<forall>k \<in> set sale_field_names. \<exists>v. ?src k = Some v \<and> v \<noteq> JUndefined"
      by (auto simp: defined_sale_fields_def list_all_iff split: option.splits)
    have "?src ''is_on_sale'' \<noteq> None"
      using each sale_keys(1) by fastforce
    then have "?src ''is_on_sale'' = Some (JBool True)"
      by (auto simp: extractProductData_sale_key [OF sale_keys(1)] split: option.splits if_splits)
    then have t: "truthy (getp ?src ''is_on_sale'')" by (simp add: getp_def)
    have "\<forall>k \<in> set sale_field_names.
        (case formatProduct numstr ?src atag' k of None \<Rightarrow> False | Some v \<Rightarrow> v \<noteq> JUndefined)"
      using each t by (auto simp: formatProduct_sale_key getp_def)
    then show ?thesis by (simp add: defined_sale_fields_def list_all_iff)
  next
    assume n: "no_sale_fields ?src"
    then have "?src ''is_on_sale'' = None"
      using sale_keys(1) by (simp add: no_sale_fields_def list_all_iff)
    then have "\<not> truthy (getp ?src ''is_on_sale'')" by (simp add: getp_def)
    then have "\<forall>k \<in> set sale_field_names. formatProduct numstr ?src atag' k = None"
      by (simp add: formatProduct_sale_key)
    then show ?thesis by (simp add: no_sale_fields_def list_all_iff)
  qed
qed

text \<open>
  Claim C6. The object returned by \<open>extractProductData\<close> and the object returned by
  \<open>formatProduct\<close> each have either all four sale properties or none of them. For
  \<open>extractProductData\<close>, and for \<open>formatProduct\<close> applied to a product that
  \<open>extractProductData\<close> returned, the four properties, when present, all have a value
  other than \<open>undefined\<close>.
\<close>

theorem sale_fields_all_or_nothing:
  "(all_sale_fields (extractProductData it atag) \<or> no_sale_fields (extractProductData it atag)) \<and>
   (all_sale_fields (formatProduct numstr product atag) \<or>
    no_sale_fields (formatProduct numstr product atag)) \<and>
   (defined_sale_fields (extractProductData it atag) \<or> no_sale_fields (extractProductData it atag)) \<and>
   (defined_sale_fields (formatProduct numstr (extractProductData it atag) atag) \<or>
    no_sale_fields (formatProduct numstr (extractProductData it atag) atag))"
proof (intro conjI)
  show "all_sale_fields (extractProductData it atag) \<or> no_sale_fields (extractProductData it atag)"
    using extractProductData_all_or_none [of it atag] by blast
  show "all_sale_fields (formatProduct numstr product atag) \<or>
    no_sale_fields (formatProduct numstr product atag)"
    unfolding all_sale_fields_def no_sale_fields_def has_field_def list_all_iff
    by (simp add: formatProduct_sale_key)
  show "defined_sale_fields (extractProductData it atag) \<or> no_sale_fields (extractProductData it atag)"
    by (rule extractProductData_defined)
  show "defined_sale_fields (formatProduct numstr (extractProductData it atag) atag) \<or>
    no_sale_fields (formatProduct numstr (extractProductData it atag) atag)"
    by (rule formatProduct_extracted)
qed

theorem sale_fields_all_or_nothing_witness:
  "all_sale_fields (extractProductData scenario_item ''tag-20'') \<and>
   no_sale_fields (extractProductData (priced_item 10 10) ''tag-20'') \<and>
   all_sale_fields (formatProduct (\<lambda>r. ''0'') sale_product ''tag-20'') \<and>
   no_sale_fields (formatProduct (\<lambda>r. ''0'') plain_product ''tag-20'') \<and>
   defined_sale_fields (formatProduct (\<lambda>r. ''0'')
     (extractProductData scenario_item ''tag-20'') ''tag-20'')"
proof -
  let ?sale = "extractProductData scenario_item ''tag-20''"
  have a: "?sale ''is_on_sale'' = Some (JBool True)"
    using scenario_order
    by (simp add: extractProductData_sale_key [OF sale_keys(1)] scenario_item_def
        priced_item_amounts)
  have b: "extractProductData (priced_item 10 10) ''tag-20'' ''is_on_sale'' = None"
    by (simp add: extractProductData_sale_key [OF sale_keys(1)] priced_item_amounts)
  have c: "formatProduct (\<lambda>r. ''0'') sale_product ''tag-20'' ''is_on_sale'' \<noteq> None"
    by (simp add: formatProduct_sale_key [OF sale_keys(1)] sale_product_def getp_def)
  have d: "formatProduct (\<lambda>r. ''0'') plain_product ''tag-20'' ''is_on_sale'' = None"
    by (simp add: formatProduct_sale_key [OF sale_keys(1)] plain_product_def getp_def)
  have e: "formatProduct (\<lambda>r. ''0'') ?sale ''tag-20'' ''is_on_sale'' \<noteq> None"
    using a by (simp add: formatProduct_sale_key [OF sale_keys(1)] getp_def)
  have na: "\<not> no_sale_fields ?sale"
    using a by (simp add: no_sale_fields_def sale_field_names_def)
  have nb: "\<not> all_sale_fields (extractProductData (priced_item 10 10) ''tag-20'')"
    using b by (simp add: all_sale_fields_def has_field_def sale_field_names_def)
  have nc: "\<not> no_sale_fields (formatProduct (\<lambda>r. ''0'') sale_product ''tag-20'')"
    using c by (simp add: no_sale_fields_def sale_field_names_def)
  have nd: "\<not> all_sale_fields (formatProduct (\<lambda>r. ''0'') plain_product ''tag-20'')"
    using d by (simp add: all_sale_fields_def has_field_def sale_field_names_def)
  have ne: "\<not> no_sale_fields (formatProduct (\<lambda>r. ''0'') ?sale ''tag-20'')"
    using e by (simp add: no_sale_fields_def sale_field_names_def)
  show ?thesis
    using na nc ne
      sale_fields_all_or_nothing
        [of scenario_item "''tag-20''" "\<lambda>r. ''0''" sale_product]
      nb nd
      sale_fields_all_or_nothing [of "priced_item 10 10" "''tag-20''" "\<lambda>r. ''0''" plain_product]
    by blast
qed

section \<open>The clicks column\<close>

lemma fold_columnMap:
  "distinct (map fst kvs) \<Longrightarrow>
   fold (\<lambda>(field, possibleNames) columnMap.
           case findColumn headers possibleNames of
             Some matchedColumn \<Rightarrow>
               if matchedColumn \<noteq> [] then columnMap(field \<mapsto> matchedColumn) else columnMap
           | None \<Rightarrow> columnMap) kvs m f =
   (case map_of kvs f of
      None \<Rightarrow> m f
    | Some names \<Rightarrow>
        (case findColumn headers names of
           Some c \<Rightarrow> if c \<noteq> [] then Some c else m f
         | None \<Rightarrow> m f))"
proof (induction kvs arbitrary: m)
  case Nil
  then show ?case by simp
next
  case (Cons kv kvs)
  obtain k names where kv: "kv = (k, names)" by (cases kv)
  have notin: "k \<notin> fst ` set kvs" using Cons.prems kv by simp
  then have none: "map_of kvs k = None" by (simp add: map_of_eq_None_iff)
  show ?case
  proof (cases "f = k")
    case True
    then show ?thesis
      using Cons.IH [of "case findColumn headers names of
             Some matchedColumn \<Rightarrow>
               if matchedColumn \<noteq> [] then m(k \<mapsto> matchedColumn) else m
           | None \<Rightarrow> m"] Cons.prems kv none
      by (simp split: option.splits)
  next
    case False
    then show ?thesis
      using Cons.IH [of "case findColumn headers names of
             Some matchedColumn \<Rightarrow>
               if matchedColumn \<noteq> [] then m(k \<mapsto> matchedColumn) else m
           | None \<Rightarrow> m"] Cons.prems kv
      by (simp split: option.splits)
  qed
qed

lemma buildColumnMap_apply:
  "buildColumnMap headers f =
     (case map_of COLUMN_MAPPINGS f of
        None \<Rightarrow> None
      | Some names \<Rightarrow>
          (case findColumn headers names of
             Some c \<Rightarrow> if c \<noteq> [] then Some c else None
           | None \<Rightarrow> None))"
proof -
  have "distinct (map fst COLUMN_MAPPINGS)" by (simp add: COLUMN_MAPPINGS_def)
  then show ?thesis
    unfolding buildColumnMap_def by (simp add: fold_columnMap)
qed

lemma column_aliases:
  "map_of COLUMN_MAPPINGS ''asin'' = Some [''asin'', ''product asin'', ''product_asin'', ''linking asin'']"
  "map_of COLUMN_MAPPINGS ''orderedItems'' = Some [''ordered items'', ''ordered_items'',
     ''items ordered'', ''qty ordered'', ''quantity ordered'', ''qty'', ''items shipped'', ''items_shipped'']"
  "map_of COLUMN_MAPPINGS ''shippedRevenue'' = Some [''shipped revenue'', ''shipped_revenue'', ''revenue'',
         ''shipped earnings'', ''product revenue'', ''revenue($)'', ''revenue ($)'']"
  "map_of COLUMN_MAPPINGS ''earnings'' = Some [''earnings'', ''publisher earnings'', ''commission'',
     ''your earnings'', ''affiliate earnings'', ''ad fees'', ''ad fees($)'', ''ad fees ($)'']"
  "map_of COLUMN_MAPPINGS ''clicks'' = Some [''clicks'', ''link clicks'', ''click count'', ''total clicks'']"
  by (simp_all add: COLUMN_MAPPINGS_def)

lemma no_clicks_found:
  "findColumn no_clicks_headers [''asin'', ''product asin'', ''product_asin'', ''linking asin''] = Some ''ASIN''"
  "findColumn no_clicks_headers [''ordered items'', ''ordered_items'',
     ''items ordered'', ''qty ordered'', ''quantity ordered'', ''qty'', ''items shipped'', ''items_shipped'']
     = Some ''Ordered Items''"
  "findColumn no_clicks_headers [''shipped revenue'', ''shipped_revenue'', ''revenue'',
         ''shipped earnings'', ''product revenue'', ''revenue($)'', ''revenue ($)''] = Some ''Shipped Revenue''"
  "findColumn no_clicks_headers [''earnings'', ''publisher earnings'', ''commission'',
     ''your earnings'', ''affiliate earnings'', ''ad fees'', ''ad fees($)'', ''ad fees ($)''] = Some ''Earnings''"
  "findColumn no_clicks_headers [''clicks'', ''link clicks'', ''click count'', ''total clicks''] = None"
  by code_simp+

lemma no_clicks_columnMap:
  "buildColumnMap no_clicks_headers ''asin'' = Some ''ASIN''"
  "buildColumnMap no_clicks_headers ''orderedItems'' = Some ''Ordered Items''"
  "buildColumnMap no_clicks_headers ''shippedRevenue'' = Some ''Shipped Revenue''"
  "buildColumnMap no_clicks_headers ''earnings'' = Some ''Earnings''"
  "buildColumnMap no_clicks_headers ''clicks'' = None"
  unfolding buildColumnMap_apply column_aliases option.case no_clicks_found
  by simp_all

lemma report_formats:
  "detectFileFormat ''report.csv'' = CSV" "detectFileFormat ''report.xlsx'' = XLSX"
  by code_simp+

text \<open>
  Claim C7 at a report whose headers resolve every required role but not the clicks
  role: \<open>parseCSV\<close> and \<open>parseFile\<close> (for a delimited file and for a spreadsheet)
  return a success with the warning, and \<open>parseCSVString\<close> throws, naming \<open>clicks\<close>
  as the missing column.
\<close>

theorem parseCSVString_requires_clicks:
  "parseCSVString pf no_clicks_headers rows =
     Thrown (MissingRequiredColumns [''clicks''] no_clicks_headers) \<and>
   fst (parseCSV pf no_clicks_headers rows skip) = [ClicksColumnNotFound] \<and>
   returned_success (snd (parseCSV pf no_clicks_headers rows skip)) \<and>
   outcome_success (parseFile pf ''report.csv'' no_clicks_headers rows skip) \<and>
   outcome_warnings (parseFile pf ''report.csv'' no_clicks_headers rows skip) = [ClicksColumnNotFound] \<and>
   outcome_success (parseFile pf ''report.xlsx'' no_clicks_headers (r # rows) skip) \<and>
   outcome_warnings (parseFile pf ''report.xlsx'' no_clicks_headers (r # rows) skip) =
     [ClicksColumnNotFound]"
  by (simp add: parseCSVString_def parseCSV_def parseFile_def report_formats missingFields_def
      no_clicks_columnMap Let_def)

section \<open>Identifiers: validation and grouping\<close>

lemma of_char_toUpperChar:
  "of_char (toUpperChar c) = (if is_lower c then (of_char c :: nat) - 32 else of_char c)"
proof (cases "is_lower c")
  case True
  then have "(of_char c :: nat) - 32 < 256" unfolding is_lower_def by linarith
  then have "((of_char c :: nat) - 32) mod 256 = of_char c - 32" by simp
  then show ?thesis using True by (simp add: toUpperChar_def)
next
  case False
  then show ?thesis by (simp add: toUpperChar_def)
qed

lemma toUpperChar_idem: "toUpperChar (toUpperChar c) = toUpperChar c"
proof (cases "is_lower c")
  case True
  then have "(of_char c :: nat) \<le> 122" by (simp add: is_lower_def)
  then have "\<not> 97 \<le> (of_char c :: nat) - 32" by linarith
  then have "\<not> is_lower (toUpperChar c)"
    using True by (simp add: is_lower_def [of "toUpperChar c"] of_char_toUpperChar)
  then show ?thesis by (simp add: toUpperChar_def [of "toUpperChar c"])
next
  case False
  then show ?thesis by (simp add: toUpperChar_def)
qed

lemma is_digit_toUpperChar: "is_digit (toUpperChar c) = is_digit c"
  unfolding is_digit_def of_char_toUpperChar by (auto simp: is_lower_def)

lemma alnum_toUpperChar:
  "(is_upper (toUpperChar c) \<or> is_lower (toUpperChar c) \<or> is_digit (toUpperChar c)) =
   (is_upper c \<or> is_lower c \<or> is_digit c)"
  unfolding is_digit_def is_upper_def is_lower_def of_char_toUpperChar
  by (auto simp: is_lower_def)

lemma asinPattern_toUpperCase: "asinPattern (toUpperCase s) = asinPattern s"
proof (cases s)
  case Nil
  then show ?thesis by (simp add: asinPattern_def toUpperCase_def)
next
  case (Cons c cs)
  have "list_all (\<lambda>d. is_upper d \<or> is_lower d \<or> is_digit d) (map toUpperChar cs) =
      list_all (\<lambda>d. is_upper d \<or> is_lower d \<or> is_digit d) cs"
    by (induction cs) (simp_all add: alnum_toUpperChar)
  then show ?thesis
    using Cons
    by (simp add: asinPattern_def toUpperCase_def toUpperChar_idem is_digit_toUpperChar)
qed

lemma isValidASIN_case_insensitive:
  assumes "toUpperCase (trim a) = toUpperCase (trim b)"
  shows "isValidASIN (Some a) = isValidASIN (Some b)"
proof -
  have "asinPattern (trim a) = asinPattern (trim b)"
    using assms asinPattern_toUpperCase [of "trim a"] asinPattern_toUpperCase [of "trim b"]
    by simp
  moreover have "asinPattern (trim []) = False" by (simp add: trim_def asinPattern_def)
  ultimately show ?thesis
    by (cases "a = []"; cases "b = []") (auto simp: isValidASIN_def)
qed

lemma mapRowToProduct_asin:
  "mapRowToProduct pf r cm = Some p \<Longrightarrow> Some (asin p) = map_option trim (cell r cm ''asin'')"
  by (auto simp: mapRowToProduct_def Let_def split: option.splits if_splits)

lemma aggregate_existing_asin: "asin (aggregate_existing e p) = asin e"
  by (simp add: aggregate_existing_def Let_def)

lemma derived_metrics_asin: "asin (derived_metrics p) = asin p"
  by (simp add: derived_metrics_def)

lemma asinMap_add_keys:
  "map fst (asinMap_add p m) =
     (if asin p \<in> set (map fst m) then map fst m else map fst m @ [asin p])"
proof (induction m)
  case Nil
  then show ?case by simp
next
  case (Cons ke m)
  obtain k e where ke: "ke = (k, e)" by (cases ke)
  show ?case
  proof (cases "k = asin p")
    case True
    then show ?thesis using ke by simp
  next
    case False
    then show ?thesis using ke Cons.IH by simp
  qed
qed

lemma asinMap_add_keyed:
  "\<forall>(k, e) \<in> set m. asin e = k \<Longrightarrow> \<forall>(k, e) \<in> set (asinMap_add p m). asin e = k"
  by (induction m) (auto simp: aggregate_existing_asin split: if_splits)

lemma fold_asinMap_add:
  "distinct (map fst m) \<Longrightarrow> \<forall>(k, e) \<in> set m. asin e = k \<Longrightarrow>
   distinct (map fst (fold asinMap_add ps m)) \<and>
   (\<forall>(k, e) \<in> set (fold asinMap_add ps m). asin e = k) \<and>
   set (map fst (fold asinMap_add ps m)) = set (map fst m) \<union> set (map asin ps)"
proof (induction ps arbitrary: m)
  case Nil
  then show ?case by simp
next
  case (Cons p ps)
  have d: "distinct (map fst (asinMap_add p m))"
    using Cons.prems(1) by (simp add: asinMap_add_keys)
  have k: "\<forall>(k, e) \<in> set (asinMap_add p m). asin e = k"
    using Cons.prems(2) by (rule asinMap_add_keyed)
  have s: "set (map fst (asinMap_add p m)) = insert (asin p) (set (map fst m))"
    by (auto simp: asinMap_add_keys)
  show ?case
    using Cons.IH [OF d k] s by auto
qed

lemma aggregateByAsin_asins:
  "distinct (map asin (aggregateByAsin ps)) \<and> set (map asin (aggregateByAsin ps)) = set (map asin ps)"
proof -
  let ?m = "fold asinMap_add ps []"
  have f: "distinct (map fst ?m)" "\<forall>(k, e) \<in> set ?m. asin e = k"
    "set (map fst ?m) = set (map asin ps)"
    using fold_asinMap_add [of "[]" ps] by simp_all
  have "map asin (aggregateByAsin ps) = map fst ?m"
    using f(2) by (auto simp: aggregateByAsin_def derived_metrics_asin)
  then show ?thesis using f(1,3) by simp
qed

text \<open>
  Claim C8, as the code has it. Validation ignores letter case: two cells whose trimmed
  identifiers differ only in case get the same verdict. The identifier is not
  normalized: a parsed product carries the trimmed cell as written, and aggregation keys
  on the exact string, one group per distinct identifier.
\<close>

theorem asin_validation_and_grouping:
  "(toUpperCase (trim a) = toUpperCase (trim b) \<longrightarrow> isValidASIN (Some a) = isValidASIN (Some b)) \<and>
   (mapRowToProduct pf r cm = Some p \<longrightarrow> Some (asin p) = map_option trim (cell r cm ''asin'')) \<and>
   distinct (map asin (aggregateByAsin ps)) \<and>
   set (map asin (aggregateByAsin ps)) = set (map asin ps)"
  using isValidASIN_case_insensitive [of a b] mapRowToProduct_asin [of pf r cm p]
    aggregateByAsin_asins [of ps]
  by blast


lemma example_asins:
  "trim ''b07pgl2zsl'' = ''b07pgl2zsl''" "trim ''B07PGL2ZSL'' = ''B07PGL2ZSL''"
  "toUpperCase ''b07pgl2zsl'' = ''B07PGL2ZSL''" "toUpperCase ''B07PGL2ZSL'' = ''B07PGL2ZSL''"
  "isValidASIN (Some ''b07pgl2zsl'')" "isValidASIN (Some ''B07PGL2ZSL'')"
  by code_simp+

lemma report_row_product:
  assumes "trim a = a" "isValidASIN (Some a)"
  shows "mapRowToProduct no_float (report_row a) (buildColumnMap no_clicks_headers) =
     Some \<lparr>asin = a, ordered_items = 0, shipped_revenue = 0, earnings = 0, clicks = 0,
       items_shipped = None, conversion_rate = None, tag = None, tags = None,
       revenue_per_click = None, average_order_value = None, epc = None, rank = None\<rparr>"
proof -
  have cells: "cell (report_row a) (buildColumnMap no_clicks_headers) ''asin'' = Some a"
    by (simp add: cell_def no_clicks_columnMap report_row_def)
  have nums: "parseNumber no_float v = 0" for v
    by (simp add: parseNumber_def no_float_def split: option.splits)
  have absent: "buildColumnMap no_clicks_headers ''itemsShipped'' = None"
    "buildColumnMap no_clicks_headers ''conversionRate'' = None"
    "buildColumnMap no_clicks_headers ''tag'' = None"
    unfolding buildColumnMap_apply by code_simp+
  show ?thesis
    using assms by (simp add: mapRowToProduct_def cells nums absent Let_def)
qed

theorem asin_validation_and_grouping_witness:
  "toUpperCase (trim ''b07pgl2zsl'') = toUpperCase (trim ''B07PGL2ZSL'') \<and>
   isValidASIN (Some ''b07pgl2zsl'') \<and> isValidASIN (Some ''B07PGL2ZSL'') \<and>
   (\<exists>p. mapRowToProduct no_float (report_row ''b07pgl2zsl'') (buildColumnMap no_clicks_headers) = Some p \<and>
        asin p = ''b07pgl2zsl'')"
proof -
  have h1: "toUpperCase (trim ''b07pgl2zsl'') = toUpperCase (trim ''B07PGL2ZSL'')"
    by (simp add: example_asins)
  obtain p where h2:
    "mapRowToProduct no_float (report_row ''b07pgl2zsl'') (buildColumnMap no_clicks_headers) = Some p"
    using report_row_product [OF example_asins(1) example_asins(5)] by blast
  have c: "cell (report_row ''b07pgl2zsl'') (buildColumnMap no_clicks_headers) ''asin'' =
      Some ''b07pgl2zsl''"
    by (simp add: cell_def no_clicks_columnMap report_row_def)
  have "isValidASIN (Some ''b07pgl2zsl'') = isValidASIN (Some ''B07PGL2ZSL'')"
    and "Some (asin p) = map_option trim
       (cell (report_row ''b07pgl2zsl'') (buildColumnMap no_clicks_headers) ''asin'')"
    using asin_validation_and_grouping
      [of "''b07pgl2zsl''" "''B07PGL2ZSL''" no_float "report_row ''b07pgl2zsl''"
        "buildColumnMap no_clicks_headers" p "[]"] h1 h2
    by blast+
  then show ?thesis using h1 h2 c example_asins by simp
qed

text \<open>
  The claim as stated fails: two rows whose identifiers differ only in letter case are
  both valid and are aggregated under two different keys.
\<close>

theorem aggregateByAsin_case_sensitive:
  "toUpperCase (trim ''b07pgl2zsl'') = toUpperCase (trim ''B07PGL2ZSL'') \<and>
   isValidASIN (Some ''b07pgl2zsl'') \<and> isValidASIN (Some ''B07PGL2ZSL'') \<and>
   map asin (aggregateByAsin
     (returned_products (snd (parseCSV no_float no_clicks_headers case_rows None)))) =
     [''b07pgl2zsl'', ''B07PGL2ZSL'']"
proof -
  have "returned_products (snd (parseCSV no_float no_clicks_headers case_rows None)) =
     [\<lparr>asin = ''b07pgl2zsl'', ordered_items = 0, shipped_revenue = 0, earnings = 0, clicks = 0,
       items_shipped = None, conversion_rate = None, tag = None, tags = None,
       revenue_per_click = None, average_order_value = None, epc = None, rank = None\<rparr>,
      \<lparr>asin = ''B07PGL2ZSL'', ordered_items = 0, shipped_revenue = 0, earnings = 0, clicks = 0,
       items_shipped = None, conversion_rate = None, tag = None, tags = None,
       revenue_per_click = None, average_order_value = None, epc = None, rank = None\<rparr>]"
    by (simp add: parseCSV_def missingFields_def no_clicks_columnMap Let_def parsedTable_def
        case_rows_def report_row_product [OF example_asins(1) example_asins(5)]
        report_row_product [OF example_asins(2) example_asins(6)])
  then have "map asin (aggregateByAsin
     (returned_products (snd (parseCSV no_float no_clicks_headers case_rows None)))) =
     [''b07pgl2zsl'', ''B07PGL2ZSL'']"
    by (simp add: aggregateByAsin_def derived_metrics_def)
  then show ?thesis by (simp add: example_asins)
qed

section \<open>Ranking and truncation\<close>

lemma js_slice_take: "0 < n \<Longrightarrow> js_slice 0 n xs = take (nat n) xs"
  by (simp add: js_slice_def Let_def min_def)

lemma length_add_ranks: "length (add_ranks ps) = length ps"
  by (simp add: add_ranks_def)

lemma add_ranks_nth:
  "i < length ps \<Longrightarrow> add_ranks ps ! i = (ps ! i)\<lparr>rank := Some (i + 1)\<rparr>"
  by (simp add: add_ranks_def)

lemma map_asin_add_ranks: "map asin (add_ranks ps) = map asin ps"
  by (rule nth_equalityI) (simp_all add: length_add_ranks add_ranks_nth)

lemma distinct_asin_filter: "distinct (map asin ps) \<Longrightarrow> distinct (map asin (filter P ps))"
  by (simp add: distinct_map_filter)

lemma opt_filter_distinct:
  "distinct (map asin xs) \<Longrightarrow>
   distinct (map asin (case t of None \<Rightarrow> xs | Some m \<Rightarrow> filter (Q m) xs))"
  by (cases t) (simp_all add: distinct_map_filter)

lemma filterProducts_distinct:
  "distinct (map asin ps) \<Longrightarrow> distinct (map asin (filterProducts ps f))"
  unfolding filterProducts_def Let_def
  by (intro opt_filter_distinct)

lemma sort_key_distinct_asin:
  "distinct (map asin ps) \<Longrightarrow> distinct (map asin (sort_key k ps))"
proof -
  assume d: "distinct (map asin ps)"
  have "mset (map asin (sort_key k ps)) = mset (map asin ps)" by simp
  then show ?thesis using d by (metis mset_eq_imp_distinct_iff)
qed

lemma rankProducts_ranked:
  assumes "RANKING_STRATEGIES rb = Some metric"
  shows "rankProducts ps rb = Inr (add_ranks (sort_key (\<lambda>p. - metric p) ps))"
  using assms by (simp add: rankProducts_def)

lemma aggregateAndRank_topN:
  assumes "rankProducts (filterProducts (aggregateByAsin ps) (opt_filters opts))
             (case rankBy opts of None \<Rightarrow> ''ordered_items'' | Some k \<Rightarrow> k) = Inr ranked"
  shows "result_products (aggregateAndRank ps (opts\<lparr>topN := t\<rparr>)) =
     (if topN_truthy t then js_slice 0 (case t of None \<Rightarrow> 0 | Some k \<Rightarrow> k) ranked else ranked)"
  using assms by (simp add: aggregateAndRank_def Let_def)


lemma rankProducts_valid:
  assumes "RANKING_STRATEGIES rb \<noteq> None"
  shows "\<exists>ranked. rankProducts ps rb = Inr ranked \<and> length ranked = length ps \<and>
           (\<forall>i < length ranked. rank (ranked ! i) = Some (i + 1)) \<and>
           (distinct (map asin ps) \<longrightarrow> distinct (map asin ranked))"
proof -
  obtain metric where m: "RANKING_STRATEGIES rb = Some metric" using assms by auto
  let ?ranked = "add_ranks (sort_key (\<lambda>p. - metric p) ps)"
  have "rankProducts ps rb = Inr ?ranked" using m by (rule rankProducts_ranked)
  moreover have "length ?ranked = length ps" by (simp add: length_add_ranks)
  moreover have "\<forall>i < length ?ranked. rank (?ranked ! i) = Some (i + 1)"
    by (simp add: length_add_ranks add_ranks_nth)
  moreover have "distinct (map asin ps) \<longrightarrow> distinct (map asin ?ranked)"
    by (simp add: map_asin_add_ranks sort_key_distinct_asin)
  ultimately show ?thesis by blast
qed

lemma pipeline_distinct:
  "distinct (map asin (filterProducts (aggregateByAsin ps) f))"
  using aggregateByAsin_asins [of ps] by (simp add: filterProducts_distinct)

text \<open>
  Claim C9. For a valid ranking key, \<open>aggregateAndRank\<close> ranks the whole filtered list
  (the product at position \<open>i\<close> gets rank \<open>i + 1\<close>) and then, for a positive \<open>topN\<close>,
  returns its first \<open>topN\<close> entries unchanged. So a product returned under two positive
  \<open>topN\<close> values has the same rank in both results.
\<close>

theorem aggregateAndRank_ranks_before_truncation:
  assumes "RANKING_STRATEGIES (case rankBy opts of None \<Rightarrow> ''ordered_items'' | Some k \<Rightarrow> k) \<noteq> None"
    and "0 < n1" and "0 < n2"
  shows "\<exists>ranked.
     rankProducts (filterProducts (aggregateByAsin ps) (opt_filters opts))
       (case rankBy opts of None \<Rightarrow> ''ordered_items'' | Some k \<Rightarrow> k) = Inr ranked \<and>
     (\<forall>i < length ranked. rank (ranked ! i) = Some (i + 1)) \<and>
     result_products (aggregateAndRank ps (opts\<lparr>topN := Some n1\<rparr>)) = take (nat n1) ranked \<and>
     result_products (aggregateAndRank ps (opts\<lparr>topN := Some n2\<rparr>)) = take (nat n2) ranked \<and>
     (\<forall>p1 \<in> set (result_products (aggregateAndRank ps (opts\<lparr>topN := Some n1\<rparr>))).
      \<forall>p2 \<in> set (result_products (aggregateAndRank ps (opts\<lparr>topN := Some n2\<rparr>))).
        asin p1 = asin p2 \<longrightarrow> rank p1 = rank p2)"
proof -
  let ?rb = "case rankBy opts of None \<Rightarrow> ''ordered_items'' | Some k \<Rightarrow> k"
  let ?filtered = "filterProducts (aggregateByAsin ps) (opt_filters opts)"
  obtain ranked where r: "rankProducts ?filtered ?rb = Inr ranked"
    "\<forall>i < length ranked. rank (ranked ! i) = Some (i + 1)"
    "distinct (map asin ranked)"
    using rankProducts_valid [OF assms(1), of ?filtered] pipeline_distinct [of ps "opt_filters opts"]
    by blast
  have t1: "result_products (aggregateAndRank ps (opts\<lparr>topN := Some n1\<rparr>)) = take (nat n1) ranked"
    using aggregateAndRank_topN [OF r(1), of "Some n1"] assms(2)
    by (simp add: topN_truthy_def js_slice_take)
  have t2: "result_products (aggregateAndRank ps (opts\<lparr>topN := Some n2\<rparr>)) = take (nat n2) ranked"
    using aggregateAndRank_topN [OF r(1), of "Some n2"] assms(3)
    by (simp add: topN_truthy_def js_slice_take)
  have inj: "inj_on asin (set ranked)" using r(3) by (simp add: distinct_map)
  have same: "rank p1 = rank p2"
    if "p1 \<in> set (take (nat n1) ranked)" "p2 \<in> set (take (nat n2) ranked)" "asin p1 = asin p2"
    for p1 p2
  proof -
    have "p1 \<in> set ranked" "p2 \<in> set ranked" using that(1,2) by (auto dest: in_set_takeD)
    then have "p1 = p2" using inj that(3) by (auto dest: inj_onD)
    then show ?thesis by simp
  qed
  show ?thesis
    using r(1,2) t1 t2 same by (intro exI [of _ ranked]) auto
qed

lemma two_items_ranked:
  "rankProducts (filterProducts (aggregateByAsin two_items) (opt_filters by_revenue))
     ''shipped_revenue'' =
   Inr [derived_metrics (line_item ''B0000000B2'' 50)\<lparr>rank := Some 1\<rparr>,
        derived_metrics (line_item ''B0000000A1'' 10)\<lparr>rank := Some 2\<rparr>]"
proof -
  have agg: "aggregateByAsin two_items =
      [derived_metrics (line_item ''B0000000A1'' 10), derived_metrics (line_item ''B0000000B2'' 50)]"
    by (simp add: aggregateByAsin_def two_items_def line_item_def)
  have flt: "filterProducts xs (opt_filters by_revenue) = xs" for xs
    by (simp add: filterProducts_def by_revenue_def no_filters_def)
  have rev: "shipped_revenue (derived_metrics (line_item a v)) = v" for a v
    by (simp add: derived_metrics_def line_item_def)
  have "RANKING_STRATEGIES ''shipped_revenue'' = Some shipped_revenue"
    by (simp add: RANKING_STRATEGIES_def)
  then show ?thesis
    unfolding agg flt
    by (simp add: rankProducts_def add_ranks_def rev)
qed

theorem aggregateAndRank_ranks_before_truncation_witness:
  "RANKING_STRATEGIES (case rankBy by_revenue of None \<Rightarrow> ''ordered_items'' | Some k \<Rightarrow> k) \<noteq> None \<and>
   (0 :: int) < 1 \<and> (0 :: int) < 2 \<and>
   map asin (result_products (aggregateAndRank two_items (by_revenue\<lparr>topN := Some 1\<rparr>))) =
     [''B0000000B2''] \<and>
   map rank (result_products (aggregateAndRank two_items (by_revenue\<lparr>topN := Some 1\<rparr>))) =
     [Some 1] \<and>
   map asin (result_products (aggregateAndRank two_items (by_revenue\<lparr>topN := Some 2\<rparr>))) =
     [''B0000000B2'', ''B0000000A1''] \<and>
   map rank (result_products (aggregateAndRank two_items (by_revenue\<lparr>topN := Some 2\<rparr>))) =
     [Some 1, Some 2]"
proof -
  have rb: "(case rankBy by_revenue of None \<Rightarrow> ''ordered_items'' | Some k \<Rightarrow> k) = ''shipped_revenue''"
    by (simp add: by_revenue_def)
  have h: "RANKING_STRATEGIES (case rankBy by_revenue of None \<Rightarrow> ''ordered_items'' | Some k \<Rightarrow> k) \<noteq> None"
    unfolding rb by (simp add: RANKING_STRATEGIES_def)
  have h1: "(0 :: int) < 1" and h2: "(0 :: int) < 2" by simp_all
  obtain ranked where r:
    "rankProducts (filterProducts (aggregateByAsin two_items) (opt_filters by_revenue))
       (case rankBy by_revenue of None \<Rightarrow> ''ordered_items'' | Some k \<Rightarrow> k) = Inr ranked"
    "result_products (aggregateAndRank two_items (by_revenue\<lparr>topN := Some 1\<rparr>)) = take (nat 1) ranked"
    "result_products (aggregateAndRank two_items (by_revenue\<lparr>topN := Some 2\<rparr>)) = take (nat 2) ranked"
    using aggregateAndRank_ranks_before_truncation [OF h h1 h2, of two_items] by blast
  have "ranked = [derived_metrics (line_item ''B0000000B2'' 50)\<lparr>rank := Some 1\<rparr>,
        derived_metrics (line_item ''B0000000A1'' 10)\<lparr>rank := Some 2\<rparr>]"
    using r(1) two_items_ranked unfolding rb by simp
  then show ?thesis
    using h r(2,3) by (simp add: derived_metrics_def line_item_def)
qed


section \<open>A zero topN\<close>

lemma aggregateAndRank_falsy_topN:
  assumes "\<not> topN_truthy t"
  shows "aggregateAndRank ps (opts\<lparr>topN := t\<rparr>) = aggregateAndRank ps (opts\<lparr>topN := None\<rparr>)"
proof -
  have "\<not> topN_truthy None" by (simp add: topN_truthy_def)
  then show ?thesis
    using assms by (simp add: aggregateAndRank_def Let_def split: sum.splits)
qed

text \<open>
  Claim C10. \<open>topN = 0\<close> is falsy, so the truncation is skipped: the result is the one
  for an absent \<open>topN\<close>, and for a valid ranking key it holds the whole ranked list, one
  entry per filtered product.
\<close>

theorem aggregateAndRank_topN_zero:
  "aggregateAndRank ps (opts\<lparr>topN := Some 0\<rparr>) = aggregateAndRank ps (opts\<lparr>topN := None\<rparr>) \<and>
   (\<forall>ranked.
      rankProducts (filterProducts (aggregateByAsin ps) (opt_filters opts))
        (case rankBy opts of None \<Rightarrow> ''ordered_items'' | Some k \<Rightarrow> k) = Inr ranked \<longrightarrow>
      result_products (aggregateAndRank ps (opts\<lparr>topN := Some 0\<rparr>)) = ranked \<and>
      length ranked = length (filterProducts (aggregateByAsin ps) (opt_filters opts)))"
proof (intro conjI allI impI)
  show "aggregateAndRank ps (opts\<lparr>topN := Some 0\<rparr>) = aggregateAndRank ps (opts\<lparr>topN := None\<rparr>)"
    by (rule aggregateAndRank_falsy_topN) (simp add: topN_truthy_def)
next
  fix ranked
  assume r: "rankProducts (filterProducts (aggregateByAsin ps) (opt_filters opts))
        (case rankBy opts of None \<Rightarrow> ''ordered_items'' | Some k \<Rightarrow> k) = Inr ranked"
  show "result_products (aggregateAndRank ps (opts\<lparr>topN := Some 0\<rparr>)) = ranked"
    using aggregateAndRank_topN [OF r, of "Some 0"] by (simp add: topN_truthy_def)
  show "length ranked = length (filterProducts (aggregateByAsin ps) (opt_filters opts))"
    using r by (auto simp: rankProducts_def length_add_ranks split: option.splits)
qed

theorem aggregateAndRank_topN_zero_witness:
  "map asin (result_products (aggregateAndRank two_items (by_revenue\<lparr>topN := Some 0\<rparr>))) =
     [''B0000000B2'', ''B0000000A1''] \<and>
   aggregateAndRank two_items (by_revenue\<lparr>topN := Some 0\<rparr>) =
     aggregateAndRank two_items (by_revenue\<lparr>topN := None\<rparr>)"
proof -
  have rb: "(case rankBy by_revenue of None \<Rightarrow> ''ordered_items'' | Some k \<Rightarrow> k) = ''shipped_revenue''"
    by (simp add: by_revenue_def)
  have "rankProducts (filterProducts (aggregateByAsin two_items) (opt_filters by_revenue))
        (case rankBy by_revenue of None \<Rightarrow> ''ordered_items'' | Some k \<Rightarrow> k) =
      Inr [derived_metrics (line_item ''B0000000B2'' 50)\<lparr>rank := Some 1\<rparr>,
           derived_metrics (line_item ''B0000000A1'' 10)\<lparr>rank := Some 2\<rparr>]"
    unfolding rb by (rule two_items_ranked)
  then have "result_products (aggregateAndRank two_items (by_revenue\<lparr>topN := Some 0\<rparr>)) =
      [derived_metrics (line_item ''B0000000B2'' 50)\<lparr>rank := Some 1\<rparr>,
       derived_metrics (line_item ''B0000000A1'' 10)\<lparr>rank := Some 2\<rparr>]"
    and "aggregateAndRank two_items (by_revenue\<lparr>topN := Some 0\<rparr>) =
     aggregateAndRank two_items (by_revenue\<lparr>topN := None\<rparr>)"
    using aggregateAndRank_topN_zero [of two_items by_revenue] by blast+
  then show ?thesis by (simp add: derived_metrics_def line_item_def)
qed

end
